theory Spec2Isabelle
  imports Main
begin

section \<open>Data model: the tables of the migration\<close>

text \<open>
  The schema is the migration \<^verbatim>\<open>supabase/migrations/20250929222129_...sql\<close>. A UUID is an
  opaque identifier that the program only compares for equality; a timestamp is a point on a
  linear time axis. A column without \<^verbatim>\<open>NOT NULL\<close> holds an \<open>option\<close> (\<open>None\<close> is SQL NULL);
  \<^verbatim>\<open>PRIMARY KEY\<close> implies \<^verbatim>\<open>NOT NULL\<close>. A text value is a \<open>string\<close>, one \<open>char\<close> for each
  character (code points above U+00FF are outside the model).
\<close>

type_synonym uuid = nat
type_synonym timestamptz = int

text \<open>A row of \<^verbatim>\<open>auth.users\<close>: its id and \<^verbatim>\<open>raw_user_meta_data->>'full_name'\<close>.\<close>

record auth_user =
  au_id :: uuid
  au_full_name :: "string option"

record profile =
  p_id :: uuid
  p_user_id :: uuid
  p_full_name :: "string option"
  p_business_name :: "string option"
  p_plan :: "string option"
  p_created_at :: "timestamptz option"
  p_updated_at :: "timestamptz option"

record customer =
  c_id :: uuid
  c_user_id :: uuid
  c_name :: string
  c_email :: "string option"
  c_phone :: "string option"
  c_notes :: "string option"
  c_tags :: "string list option"
  c_created_at :: "timestamptz option"
  c_updated_at :: "timestamptz option"

record interaction =
  i_id :: uuid
  i_customer_id :: uuid
  i_user_id :: uuid
  i_type :: string
  i_description :: string
  i_interaction_date :: "timestamptz option"
  i_created_at :: "timestamptz option"

record reminder =
  r_id :: uuid
  r_customer_id :: uuid
  r_user_id :: uuid
  r_title :: string
  r_description :: "string option"
  r_reminder_date :: timestamptz
  r_completed :: "bool option"
  r_created_at :: "timestamptz option"
  r_updated_at :: "timestamptz option"

record db =
  users :: "auth_user list"
  profiles :: "profile list"
  customers :: "customer list"
  customer_interactions :: "interaction list"
  reminders :: "reminder list"

definition empty_db :: db where
  "empty_db = \<lparr>users = [], profiles = [], customers = [], customer_interactions = [],
     reminders = []\<rparr>"

section \<open>Requests and errors\<close>

text \<open>
  The errors the store raises. \<open>RlsViolation\<close> is "new row violates row-level security
  policy", the \<^verbatim>\<open>AuthorizationError\<close> of the specification.
\<close>

datatype error = RlsViolation | NotNullViolation | CheckViolation | UniqueViolation
  | ForeignKeyViolation

text \<open>
  A column of an \<^verbatim>\<open>INSERT\<close> is either left out, and takes the column's \<^verbatim>\<open>DEFAULT\<close>, or given
  a value (which may be NULL). A column of an \<^verbatim>\<open>UPDATE\<close> is either left out of the \<^verbatim>\<open>SET\<close>
  list or assigned a value.
\<close>

datatype 'a arg = DEFAULT | Val 'a

datatype 'a assign = Keep | Assign 'a

definition fill :: "'a arg \<Rightarrow> 'a \<Rightarrow> 'a" where
  "fill a d = (case a of DEFAULT \<Rightarrow> d | Val v \<Rightarrow> v)"

definition assign :: "'a assign \<Rightarrow> 'a \<Rightarrow> 'a" where
  "assign a old = (case a of Keep \<Rightarrow> old | Assign v \<Rightarrow> v)"

record profile_ins =
  pi_id :: "uuid option arg"
  pi_user_id :: "uuid option"
  pi_full_name :: "string option"
  pi_business_name :: "string option"
  pi_plan :: "string option arg"
  pi_created_at :: "timestamptz option arg"
  pi_updated_at :: "timestamptz option arg"

record customer_ins =
  ci_id :: "uuid option arg"
  ci_user_id :: "uuid option"
  ci_name :: "string option"
  ci_email :: "string option"
  ci_phone :: "string option"
  ci_notes :: "string option"
  ci_tags :: "string list option arg"
  ci_created_at :: "timestamptz option arg"
  ci_updated_at :: "timestamptz option arg"

record interaction_ins =
  ii_id :: "uuid option arg"
  ii_customer_id :: "uuid option"
  ii_user_id :: "uuid option"
  ii_type :: "string option"
  ii_description :: "string option"
  ii_interaction_date :: "timestamptz option arg"
  ii_created_at :: "timestamptz option arg"

record reminder_ins =
  ri_id :: "uuid option arg"
  ri_customer_id :: "uuid option"
  ri_user_id :: "uuid option"
  ri_title :: "string option"
  ri_description :: "string option"
  ri_reminder_date :: "timestamptz option"
  ri_completed :: "bool option arg"
  ri_created_at :: "timestamptz option arg"
  ri_updated_at :: "timestamptz option arg"

text \<open>The \<^verbatim>\<open>SET\<close> list of an update. The primary key \<open>id\<close> is not updated in this model.\<close>

record profile_upd =
  pu_user_id :: "uuid option assign"
  pu_full_name :: "string option assign"
  pu_business_name :: "string option assign"
  pu_plan :: "string option assign"
  pu_created_at :: "timestamptz option assign"
  pu_updated_at :: "timestamptz option assign"

record customer_upd =
  cu_user_id :: "uuid option assign"
  cu_name :: "string option assign"
  cu_email :: "string option assign"
  cu_phone :: "string option assign"
  cu_notes :: "string option assign"
  cu_tags :: "string list option assign"
  cu_created_at :: "timestamptz option assign"
  cu_updated_at :: "timestamptz option assign"

record interaction_upd =
  iu_customer_id :: "uuid option assign"
  iu_user_id :: "uuid option assign"
  iu_type :: "string option assign"
  iu_description :: "string option assign"
  iu_interaction_date :: "timestamptz option assign"
  iu_created_at :: "timestamptz option assign"

record reminder_upd =
  ru_customer_id :: "uuid option assign"
  ru_user_id :: "uuid option assign"
  ru_title :: "string option assign"
  ru_description :: "string option assign"
  ru_reminder_date :: "timestamptz option assign"
  ru_completed :: "bool option assign"
  ru_created_at :: "timestamptz option assign"
  ru_updated_at :: "timestamptz option assign"

section \<open>Row-level security\<close>

text \<open>
  Lines 50 to 103 of the migration: row-level security is enabled on the four tables, and
  every policy is \<^verbatim>\<open>auth.uid() = user_id\<close>. There is no \<^verbatim>\<open>DELETE\<close> policy on profiles, so
  no profile row is visible to a delete. \<open>uid\<close> is \<^verbatim>\<open>auth.uid()\<close>, NULL for a request that
  carries no identity; an SQL comparison with NULL does not hold.
\<close>

datatype tbl = Profiles | Customers | CustomerInteractions | Reminders

datatype cmd = SELECT | INSERT | UPDATE | DELETE

fun policy :: "tbl \<Rightarrow> cmd \<Rightarrow> uuid option \<Rightarrow> uuid option \<Rightarrow> bool" where
  "policy Profiles DELETE uid user_id = False"
| "policy t c uid user_id = (uid \<noteq> None \<and> user_id \<noteq> None \<and> uid = user_id)"

section \<open>Triggers\<close>

text \<open>
  \<^verbatim>\<open>update_updated_at_column\<close> (lines 106 to 112): \<^verbatim>\<open>NEW.updated_at = now()\<close>, whatever value
  the statement gave the column.
\<close>

definition update_updated_at_column :: "timestamptz \<Rightarrow> timestamptz option \<Rightarrow> timestamptz option" where
  "update_updated_at_column now new_updated_at = Some now"

definition plan_check :: "string option \<Rightarrow> bool" where
  "plan_check p = (case p of None \<Rightarrow> True | Some v \<Rightarrow> v = ''free'' \<or> v = ''pro'')"

definition type_check :: "string \<Rightarrow> bool" where
  "type_check t = (t = ''call'' \<or> t = ''email'' \<or> t = ''meeting'' \<or> t = ''quote''
     \<or> t = ''service'' \<or> t = ''other'')"

section \<open>Statements on the four tables\<close>

text \<open>
  Every statement takes \<open>uid\<close> (\<^verbatim>\<open>auth.uid()\<close>), and where it needs them \<open>now\<close> (\<^verbatim>\<open>now()\<close>)
  and \<open>gen\<close> (the value \<^verbatim>\<open>gen_random_uuid()\<close> returns). A statement is one transaction: it
  returns the new database, or an error and the database is as before. The checks of an
  insert run in the order of the store: the policy's \<^verbatim>\<open>WITH CHECK\<close>, \<^verbatim>\<open>NOT NULL\<close> and
  \<^verbatim>\<open>CHECK\<close>, the unique indexes, the foreign keys.
\<close>

subsection \<open>SELECT\<close>

definition select_profiles :: "uuid option \<Rightarrow> db \<Rightarrow> profile list" where
  "select_profiles uid d = filter (\<lambda>r. policy Profiles SELECT uid (Some (p_user_id r))) (profiles d)"

definition select_customers :: "uuid option \<Rightarrow> db \<Rightarrow> customer list" where
  "select_customers uid d =
     filter (\<lambda>r. policy Customers SELECT uid (Some (c_user_id r))) (customers d)"

definition select_customer_interactions :: "uuid option \<Rightarrow> db \<Rightarrow> interaction list" where
  "select_customer_interactions uid d =
     filter (\<lambda>r. policy CustomerInteractions SELECT uid (Some (i_user_id r)))
       (customer_interactions d)"

definition select_reminders :: "uuid option \<Rightarrow> db \<Rightarrow> reminder list" where
  "select_reminders uid d =
     filter (\<lambda>r. policy Reminders SELECT uid (Some (r_user_id r))) (reminders d)"

subsection \<open>INSERT\<close>

text \<open>
  The insert into profiles without the policy: what a \<^verbatim>\<open>SECURITY DEFINER\<close> function runs.
  Lines 2 to 11: \<open>id\<close> and \<open>user_id\<close> are \<^verbatim>\<open>NOT NULL\<close>, \<open>plan\<close> is checked, \<open>id\<close> and \<open>user_id\<close>
  are unique, \<open>user_id\<close> references \<^verbatim>\<open>auth.users\<close>.
\<close>

definition profiles_insert_row :: "timestamptz \<Rightarrow> uuid \<Rightarrow> profile_ins \<Rightarrow> db \<Rightarrow> error + db" where
  "profiles_insert_row now gen v d =
     (case (fill (pi_id v) (Some gen), pi_user_id v) of
        (Some i, Some u) \<Rightarrow>
          if \<not> plan_check (fill (pi_plan v) (Some ''free'')) then Inl CheckViolation
          else if i \<in> set (map p_id (profiles d)) then Inl UniqueViolation
          else if u \<in> set (map p_user_id (profiles d)) then Inl UniqueViolation
          else if u \<notin> set (map au_id (users d)) then Inl ForeignKeyViolation
          else Inr (d\<lparr>profiles := profiles d @
            [\<lparr>p_id = i, p_user_id = u, p_full_name = pi_full_name v,
              p_business_name = pi_business_name v,
              p_plan = fill (pi_plan v) (Some ''free''),
              p_created_at = fill (pi_created_at v) (Some now),
              p_updated_at = fill (pi_updated_at v) (Some now)\<rparr>]\<rparr>)
      | _ \<Rightarrow> Inl NotNullViolation)"

definition insert_profiles ::
  "uuid option \<Rightarrow> timestamptz \<Rightarrow> uuid \<Rightarrow> profile_ins \<Rightarrow> db \<Rightarrow> error + db" where
  "insert_profiles uid now gen v d =
     (if \<not> policy Profiles INSERT uid (pi_user_id v) then Inl RlsViolation
      else profiles_insert_row now gen v d)"

definition insert_customers ::
  "uuid option \<Rightarrow> timestamptz \<Rightarrow> uuid \<Rightarrow> customer_ins \<Rightarrow> db \<Rightarrow> error + db" where
  "insert_customers uid now gen v d =
     (if \<not> policy Customers INSERT uid (ci_user_id v) then Inl RlsViolation
      else case (fill (ci_id v) (Some gen), ci_user_id v, ci_name v) of
        (Some i, Some u, Some n) \<Rightarrow>
          if i \<in> set (map c_id (customers d)) then Inl UniqueViolation
          else if u \<notin> set (map au_id (users d)) then Inl ForeignKeyViolation
          else Inr (d\<lparr>customers := customers d @
            [\<lparr>c_id = i, c_user_id = u, c_name = n, c_email = ci_email v,
              c_phone = ci_phone v, c_notes = ci_notes v,
              c_tags = fill (ci_tags v) (Some []),
              c_created_at = fill (ci_created_at v) (Some now),
              c_updated_at = fill (ci_updated_at v) (Some now)\<rparr>]\<rparr>)
      | _ \<Rightarrow> Inl NotNullViolation)"

definition insert_customer_interactions ::
  "uuid option \<Rightarrow> timestamptz \<Rightarrow> uuid \<Rightarrow> interaction_ins \<Rightarrow> db \<Rightarrow> error + db" where
  "insert_customer_interactions uid now gen v d =
     (if \<not> policy CustomerInteractions INSERT uid (ii_user_id v) then Inl RlsViolation
      else case (fill (ii_id v) (Some gen), ii_customer_id v, ii_user_id v, ii_type v,
                 ii_description v) of
        (Some i, Some c, Some u, Some t, Some ds) \<Rightarrow>
          if \<not> type_check t then Inl CheckViolation
          else if i \<in> set (map i_id (customer_interactions d)) then Inl UniqueViolation
          else if c \<notin> set (map c_id (customers d)) then Inl ForeignKeyViolation
          else if u \<notin> set (map au_id (users d)) then Inl ForeignKeyViolation
          else Inr (d\<lparr>customer_interactions := customer_interactions d @
            [\<lparr>i_id = i, i_customer_id = c, i_user_id = u, i_type = t, i_description = ds,
              i_interaction_date = fill (ii_interaction_date v) (Some now),
              i_created_at = fill (ii_created_at v) (Some now)\<rparr>]\<rparr>)
      | _ \<Rightarrow> Inl NotNullViolation)"

definition insert_reminders ::
  "uuid option \<Rightarrow> timestamptz \<Rightarrow> uuid \<Rightarrow> reminder_ins \<Rightarrow> db \<Rightarrow> error + db" where
  "insert_reminders uid now gen v d =
     (if \<not> policy Reminders INSERT uid (ri_user_id v) then Inl RlsViolation
      else case (fill (ri_id v) (Some gen), ri_customer_id v, ri_user_id v, ri_title v,
                 ri_reminder_date v) of
        (Some i, Some c, Some u, Some t, Some rd) \<Rightarrow>
          if i \<in> set (map r_id (reminders d)) then Inl UniqueViolation
          else if c \<notin> set (map c_id (customers d)) then Inl ForeignKeyViolation
          else if u \<notin> set (map au_id (users d)) then Inl ForeignKeyViolation
          else Inr (d\<lparr>reminders := reminders d @
            [\<lparr>r_id = i, r_customer_id = c, r_user_id = u, r_title = t,
              r_description = ri_description v, r_reminder_date = rd,
              r_completed = fill (ri_completed v) (Some False),
              r_created_at = fill (ri_created_at v) (Some now),
              r_updated_at = fill (ri_updated_at v) (Some now)\<rparr>]\<rparr>)
      | _ \<Rightarrow> Inl NotNullViolation)"

subsection \<open>UPDATE\<close>

text \<open>
  \<^verbatim>\<open>UPDATE t SET ... WHERE id = x\<close>, as the pages send it. The rows the statement sees are
  those with that id that pass the policy's \<^verbatim>\<open>USING\<close>; the others are skipped without an
  error. For each row it sees: the new row is built, the \<^verbatim>\<open>BEFORE UPDATE\<close> trigger runs
  (lines 115 to 128: on profiles, customers and reminders), the policy is checked on the new
  row (an \<^verbatim>\<open>UPDATE\<close> policy without \<^verbatim>\<open>WITH CHECK\<close> applies its \<^verbatim>\<open>USING\<close> expression to it),
  then the constraints; a foreign key is checked when its column changed. One failing
  row fails the statement.
\<close>

fun update_rows :: "('r \<Rightarrow> bool) \<Rightarrow> ('r \<Rightarrow> error + 'r) \<Rightarrow> 'r list \<Rightarrow> error + 'r list" where
  "update_rows m f [] = Inr []"
| "update_rows m f (r # rs) =
     (if m r then
        (case f r of
           Inl e \<Rightarrow> Inl e
         | Inr r' \<Rightarrow> (case update_rows m f rs of Inl e \<Rightarrow> Inl e | Inr rs' \<Rightarrow> Inr (r' # rs')))
      else (case update_rows m f rs of Inl e \<Rightarrow> Inl e | Inr rs' \<Rightarrow> Inr (r # rs')))"

definition profiles_new_row ::
  "uuid option \<Rightarrow> timestamptz \<Rightarrow> profile_upd \<Rightarrow> db \<Rightarrow> profile \<Rightarrow> error + profile" where
  "profiles_new_row uid now v d old =
     (let new_user_id = assign (pu_user_id v) (Some (p_user_id old));
          new_plan = assign (pu_plan v) (p_plan old)
      in if \<not> policy Profiles UPDATE uid new_user_id then Inl RlsViolation
         else case new_user_id of
           None \<Rightarrow> Inl NotNullViolation
         | Some u \<Rightarrow>
             if \<not> plan_check new_plan then Inl CheckViolation
             else if u \<noteq> p_user_id old \<and> u \<in> set (map p_user_id (profiles d))
               then Inl UniqueViolation
             else if u \<noteq> p_user_id old \<and> u \<notin> set (map au_id (users d))
               then Inl ForeignKeyViolation
             else Inr (old\<lparr>p_user_id := u,
               p_full_name := assign (pu_full_name v) (p_full_name old),
               p_business_name := assign (pu_business_name v) (p_business_name old),
               p_plan := new_plan,
               p_created_at := assign (pu_created_at v) (p_created_at old),
               p_updated_at :=
                 update_updated_at_column now (assign (pu_updated_at v) (p_updated_at old))\<rparr>))"

definition update_profiles ::
  "uuid option \<Rightarrow> timestamptz \<Rightarrow> uuid \<Rightarrow> profile_upd \<Rightarrow> db \<Rightarrow> error + db" where
  "update_profiles uid now x v d =
     (case update_rows (\<lambda>r. p_id r = x \<and> policy Profiles UPDATE uid (Some (p_user_id r)))
             (profiles_new_row uid now v d) (profiles d) of
        Inl e \<Rightarrow> Inl e
      | Inr rows \<Rightarrow> Inr (d\<lparr>profiles := rows\<rparr>))"

definition customers_new_row ::
  "uuid option \<Rightarrow> timestamptz \<Rightarrow> customer_upd \<Rightarrow> db \<Rightarrow> customer \<Rightarrow> error + customer" where
  "customers_new_row uid now v d old =
     (let new_user_id = assign (cu_user_id v) (Some (c_user_id old));
          new_name = assign (cu_name v) (Some (c_name old))
      in if \<not> policy Customers UPDATE uid new_user_id then Inl RlsViolation
         else case (new_user_id, new_name) of
           (Some u, Some n) \<Rightarrow>
             if u \<noteq> c_user_id old \<and> u \<notin> set (map au_id (users d))
               then Inl ForeignKeyViolation
             else Inr (old\<lparr>c_user_id := u, c_name := n,
               c_email := assign (cu_email v) (c_email old),
               c_phone := assign (cu_phone v) (c_phone old),
               c_notes := assign (cu_notes v) (c_notes old),
               c_tags := assign (cu_tags v) (c_tags old),
               c_created_at := assign (cu_created_at v) (c_created_at old),
               c_updated_at :=
                 update_updated_at_column now (assign (cu_updated_at v) (c_updated_at old))\<rparr>)
         | _ \<Rightarrow> Inl NotNullViolation)"

definition update_customers ::
  "uuid option \<Rightarrow> timestamptz \<Rightarrow> uuid \<Rightarrow> customer_upd \<Rightarrow> db \<Rightarrow> error + db" where
  "update_customers uid now x v d =
     (case update_rows (\<lambda>r. c_id r = x \<and> policy Customers UPDATE uid (Some (c_user_id r)))
             (customers_new_row uid now v d) (customers d) of
        Inl e \<Rightarrow> Inl e
      | Inr rows \<Rightarrow> Inr (d\<lparr>customers := rows\<rparr>))"

text \<open>There is no trigger on \<^verbatim>\<open>customer_interactions\<close>, which has no \<open>updated_at\<close>.\<close>

definition customer_interactions_new_row ::
  "uuid option \<Rightarrow> interaction_upd \<Rightarrow> db \<Rightarrow> interaction \<Rightarrow> error + interaction" where
  "customer_interactions_new_row uid v d old =
     (let new_user_id = assign (iu_user_id v) (Some (i_user_id old))
      in if \<not> policy CustomerInteractions UPDATE uid new_user_id then Inl RlsViolation
         else case (assign (iu_customer_id v) (Some (i_customer_id old)), new_user_id,
                    assign (iu_type v) (Some (i_type old)),
                    assign (iu_description v) (Some (i_description old))) of
           (Some c, Some u, Some t, Some ds) \<Rightarrow>
             if \<not> type_check t then Inl CheckViolation
             else if c \<noteq> i_customer_id old \<and> c \<notin> set (map c_id (customers d))
               then Inl ForeignKeyViolation
             else if u \<noteq> i_user_id old \<and> u \<notin> set (map au_id (users d))
               then Inl ForeignKeyViolation
             else Inr (old\<lparr>i_customer_id := c, i_user_id := u, i_type := t,
               i_description := ds,
               i_interaction_date := assign (iu_interaction_date v) (i_interaction_date old),
               i_created_at := assign (iu_created_at v) (i_created_at old)\<rparr>)
         | _ \<Rightarrow> Inl NotNullViolation)"

definition update_customer_interactions ::
  "uuid option \<Rightarrow> uuid \<Rightarrow> interaction_upd \<Rightarrow> db \<Rightarrow> error + db" where
  "update_customer_interactions uid x v d =
     (case update_rows
             (\<lambda>r. i_id r = x \<and> policy CustomerInteractions UPDATE uid (Some (i_user_id r)))
             (customer_interactions_new_row uid v d) (customer_interactions d) of
        Inl e \<Rightarrow> Inl e
      | Inr rows \<Rightarrow> Inr (d\<lparr>customer_interactions := rows\<rparr>))"

definition reminders_new_row ::
  "uuid option \<Rightarrow> timestamptz \<Rightarrow> reminder_upd \<Rightarrow> db \<Rightarrow> reminder \<Rightarrow> error + reminder" where
  "reminders_new_row uid now v d old =
     (let new_user_id = assign (ru_user_id v) (Some (r_user_id old))
      in if \<not> policy Reminders UPDATE uid new_user_id then Inl RlsViolation
         else case (assign (ru_customer_id v) (Some (r_customer_id old)), new_user_id,
                    assign (ru_title v) (Some (r_title old)),
                    assign (ru_reminder_date v) (Some (r_reminder_date old))) of
           (Some c, Some u, Some t, Some rd) \<Rightarrow>
             if c \<noteq> r_customer_id old \<and> c \<notin> set (map c_id (customers d))
               then Inl ForeignKeyViolation
             else if u \<noteq> r_user_id old \<and> u \<notin> set (map au_id (users d))
               then Inl ForeignKeyViolation
             else Inr (old\<lparr>r_customer_id := c, r_user_id := u, r_title := t,
               r_description := assign (ru_description v) (r_description old),
               r_reminder_date := rd,
               r_completed := assign (ru_completed v) (r_completed old),
               r_created_at := assign (ru_created_at v) (r_created_at old),
               r_updated_at :=
                 update_updated_at_column now (assign (ru_updated_at v) (r_updated_at old))\<rparr>)
         | _ \<Rightarrow> Inl NotNullViolation)"

definition update_reminders ::
  "uuid option \<Rightarrow> timestamptz \<Rightarrow> uuid \<Rightarrow> reminder_upd \<Rightarrow> db \<Rightarrow> error + db" where
  "update_reminders uid now x v d =
     (case update_rows (\<lambda>r. r_id r = x \<and> policy Reminders UPDATE uid (Some (r_user_id r)))
             (reminders_new_row uid now v d) (reminders d) of
        Inl e \<Rightarrow> Inl e
      | Inr rows \<Rightarrow> Inr (d\<lparr>reminders := rows\<rparr>))"

subsection \<open>DELETE\<close>

text \<open>
  The rows a delete sees are those that pass the \<^verbatim>\<open>DELETE\<close> policy. Deleting a customer
  row deletes, in the same statement, the interactions and reminders whose \<open>customer_id\<close>
  is its id (\<^verbatim>\<open>ON DELETE CASCADE\<close>, lines 29 and 40); the cascade is a referential action of
  the store and consults no policy.
\<close>

definition delete_profiles :: "uuid option \<Rightarrow> uuid \<Rightarrow> db \<Rightarrow> error + db" where
  "delete_profiles uid x d =
     Inr (d\<lparr>profiles :=
       filter (\<lambda>r. \<not> (p_id r = x \<and> policy Profiles DELETE uid (Some (p_user_id r))))
         (profiles d)\<rparr>)"

definition delete_customers :: "uuid option \<Rightarrow> uuid \<Rightarrow> db \<Rightarrow> error + db" where
  "delete_customers uid x d =
     (let seen = (\<lambda>r. c_id r = x \<and> policy Customers DELETE uid (Some (c_user_id r)));
          gone = map c_id (filter seen (customers d))
      in Inr (d\<lparr>customers := filter (\<lambda>r. \<not> seen r) (customers d),
           customer_interactions :=
             filter (\<lambda>r. i_customer_id r \<notin> set gone) (customer_interactions d),
           reminders := filter (\<lambda>r. r_customer_id r \<notin> set gone) (reminders d)\<rparr>))"

definition delete_customer_interactions :: "uuid option \<Rightarrow> uuid \<Rightarrow> db \<Rightarrow> error + db" where
  "delete_customer_interactions uid x d =
     Inr (d\<lparr>customer_interactions :=
       filter (\<lambda>r. \<not> (i_id r = x \<and> policy CustomerInteractions DELETE uid (Some (i_user_id r))))
         (customer_interactions d)\<rparr>)"

definition delete_reminders :: "uuid option \<Rightarrow> uuid \<Rightarrow> db \<Rightarrow> error + db" where
  "delete_reminders uid x d =
     Inr (d\<lparr>reminders :=
       filter (\<lambda>r. \<not> (r_id r = x \<and> policy Reminders DELETE uid (Some (r_user_id r))))
         (reminders d)\<rparr>)"

section \<open>Identities\<close>

text \<open>
  \<^verbatim>\<open>handle_new_user\<close> (lines 131 to 141) inserts the profile of a new identity:
  \<^verbatim>\<open>(user_id, full_name) VALUES (NEW.id, COALESCE(NEW.raw_user_meta_data->>'full_name', ''))\<close>,
  every other column at its default. It is \<^verbatim>\<open>SECURITY DEFINER\<close>, so no policy applies.
\<close>

definition coalesce :: "'a option \<Rightarrow> 'a \<Rightarrow> 'a" where
  "coalesce v d = (case v of None \<Rightarrow> d | Some x \<Rightarrow> x)"

definition handle_new_user :: "timestamptz \<Rightarrow> uuid \<Rightarrow> auth_user \<Rightarrow> db \<Rightarrow> error + db" where
  "handle_new_user now gen new d =
     profiles_insert_row now gen
       \<lparr>pi_id = DEFAULT, pi_user_id = Some (au_id new),
        pi_full_name = Some (coalesce (au_full_name new) []),
        pi_business_name = None, pi_plan = DEFAULT, pi_created_at = DEFAULT,
        pi_updated_at = DEFAULT\<rparr> d"

text \<open>
  Registering an identity is an insert into \<^verbatim>\<open>auth.users\<close>; the trigger
  \<^verbatim>\<open>on_auth_user_created\<close> (lines 144 to 146) runs \<^verbatim>\<open>handle_new_user\<close> after the insert
  and in its transaction, so an error of the trigger undoes the registration.
\<close>

definition insert_auth_users :: "timestamptz \<Rightarrow> uuid \<Rightarrow> auth_user \<Rightarrow> db \<Rightarrow> error + db" where
  "insert_auth_users now gen new d =
     (if au_id new \<in> set (map au_id (users d)) then Inl UniqueViolation
      else handle_new_user now gen new (d\<lparr>users := users d @ [new]\<rparr>))"

text \<open>
  Deleting an identity: \<open>user_id\<close> of each of the four tables references \<^verbatim>\<open>auth.users(id)\<close>
  with \<^verbatim>\<open>ON DELETE CASCADE\<close> (lines 4, 16, 30 and 41), and the customers deleted that way
  take their interactions and reminders with them (lines 29 and 40).
\<close>

definition delete_auth_users :: "uuid \<Rightarrow> db \<Rightarrow> error + db" where
  "delete_auth_users x d =
     (if x \<notin> set (map au_id (users d)) then Inr d
      else
        (let gone = map c_id (filter (\<lambda>r. c_user_id r = x) (customers d))
         in Inr (d\<lparr>users := filter (\<lambda>r. au_id r \<noteq> x) (users d),
              profiles := filter (\<lambda>r. p_user_id r \<noteq> x) (profiles d),
              customers := filter (\<lambda>r. c_user_id r \<noteq> x) (customers d),
              customer_interactions :=
                filter (\<lambda>r. i_user_id r \<noteq> x \<and> i_customer_id r \<notin> set gone)
                  (customer_interactions d),
              reminders :=
                filter (\<lambda>r. r_user_id r \<noteq> x \<and> r_customer_id r \<notin> set gone)
                  (reminders d)\<rparr>)))"

section \<open>Reachable databases\<close>

datatype request =
    InsertAuthUsers timestamptz uuid auth_user
  | DeleteAuthUsers uuid
  | InsertProfiles "uuid option" timestamptz uuid profile_ins
  | UpdateProfiles "uuid option" timestamptz uuid profile_upd
  | DeleteProfiles "uuid option" uuid
  | InsertCustomers "uuid option" timestamptz uuid customer_ins
  | UpdateCustomers "uuid option" timestamptz uuid customer_upd
  | DeleteCustomers "uuid option" uuid
  | InsertCustomerInteractions "uuid option" timestamptz uuid interaction_ins
  | UpdateCustomerInteractions "uuid option" uuid interaction_upd
  | DeleteCustomerInteractions "uuid option" uuid
  | InsertReminders "uuid option" timestamptz uuid reminder_ins
  | UpdateReminders "uuid option" timestamptz uuid reminder_upd
  | DeleteReminders "uuid option" uuid

fun exec :: "request \<Rightarrow> db \<Rightarrow> error + db" where
  "exec (InsertAuthUsers now gen new) d = insert_auth_users now gen new d"
| "exec (DeleteAuthUsers x) d = delete_auth_users x d"
| "exec (InsertProfiles uid now gen v) d = insert_profiles uid now gen v d"
| "exec (UpdateProfiles uid now x v) d = update_profiles uid now x v d"
| "exec (DeleteProfiles uid x) d = delete_profiles uid x d"
| "exec (InsertCustomers uid now gen v) d = insert_customers uid now gen v d"
| "exec (UpdateCustomers uid now x v) d = update_customers uid now x v d"
| "exec (DeleteCustomers uid x) d = delete_customers uid x d"
| "exec (InsertCustomerInteractions uid now gen v) d =
     insert_customer_interactions uid now gen v d"
| "exec (UpdateCustomerInteractions uid x v) d = update_customer_interactions uid x v d"
| "exec (DeleteCustomerInteractions uid x) d = delete_customer_interactions uid x d"
| "exec (InsertReminders uid now gen v) d = insert_reminders uid now gen v d"
| "exec (UpdateReminders uid now x v) d = update_reminders uid now x v d"
| "exec (DeleteReminders uid x) d = delete_reminders uid x d"

text \<open>
  The databases the system can be in: the empty one, and what a request that succeeds
  makes of a reachable one. A request that fails leaves the database as it was.
\<close>

inductive reachable :: "db \<Rightarrow> bool" where
  reachable_empty: "reachable empty_db"
| reachable_exec: "reachable d \<Longrightarrow> exec q d = Inr d' \<Longrightarrow> reachable d'"

text \<open>
  The foreign keys and keys of the schema, as predicates of a database: every \<open>user_id\<close> is
  the id of an identity, every \<open>customer_id\<close> the id of a customer; ids are unique in their
  table, and so is the \<open>user_id\<close> of profiles.
\<close>

definition foreign_keys :: "db \<Rightarrow> bool" where
  "foreign_keys d =
     (list_all (\<lambda>r. p_user_id r \<in> set (map au_id (users d))) (profiles d) \<and>
      list_all (\<lambda>r. c_user_id r \<in> set (map au_id (users d))) (customers d) \<and>
      list_all (\<lambda>r. i_user_id r \<in> set (map au_id (users d))) (customer_interactions d) \<and>
      list_all (\<lambda>r. i_customer_id r \<in> set (map c_id (customers d))) (customer_interactions d) \<and>
      list_all (\<lambda>r. r_user_id r \<in> set (map au_id (users d))) (reminders d) \<and>
      list_all (\<lambda>r. r_customer_id r \<in> set (map c_id (customers d))) (reminders d))"

definition unique_keys :: "db \<Rightarrow> bool" where
  "unique_keys d =
     (distinct (map au_id (users d)) \<and> distinct (map p_id (profiles d)) \<and>
      distinct (map p_user_id (profiles d)) \<and> distinct (map c_id (customers d)) \<and>
      distinct (map i_id (customer_interactions d)) \<and> distinct (map r_id (reminders d)))"

section \<open>The customers page\<close>





record customer_form =
  f_name :: string
  f_email :: string
  f_phone :: string
  f_notes :: string
  f_tags :: string



record customers_page =
  pg_customers :: "customer list"
  pg_showForm :: bool
  pg_editingCustomer :: "customer option"
  pg_formData :: customer_form

datatype toast = ClienteAtualizado | LimiteAtingido | ClienteAdicionado | DadosInvalidos
  | Erro | ClienteRemovido | LembreteReaberto | LembreteConcluido

text \<open>
  \<^verbatim>\<open>loadCustomers\<close> (lines 58 to 78): \<^verbatim>\<open>select('*').eq('user_id', user?.id)\<close>, under the
  \<^verbatim>\<open>SELECT\<close> policy. The order of the result (\<^verbatim>\<open>created_at\<close> descending) is left out.
\<close>

definition loadCustomers :: "uuid option \<Rightarrow> db \<Rightarrow> customers_page \<Rightarrow> customers_page" where
  "loadCustomers user d pg =
     pg\<lparr>pg_customers := filter (\<lambda>r. Some (c_user_id r) = user) (select_customers user d)\<rparr>"







text \<open>
  \<^verbatim>\<open>handleDelete\<close> (lines 167 to 192); \<open>confirmed\<close> is the answer to the \<^verbatim>\<open>confirm\<close> dialog.
\<close>

definition handleDelete ::
  "uuid option \<Rightarrow> bool \<Rightarrow> customer \<Rightarrow> customers_page \<Rightarrow> db \<Rightarrow> toast option \<times> customers_page \<times> db" where
  "handleDelete user confirmed customer pg d =
     (if \<not> confirmed then (None, pg, d)
      else
        (case delete_customers user (c_id customer) d of
           Inl e \<Rightarrow> (Some Erro, pg, d)
         | Inr d' \<Rightarrow> (Some ClienteRemovido, loadCustomers user d' pg, d')))"

section \<open>The reminders page\<close>

text \<open>
  \<^verbatim>\<open>src/pages/Reminders.tsx\<close>: \<^verbatim>\<open>loadData\<close> (lines 63 to 98) and \<^verbatim>\<open>handleToggleComplete\<close>
  (lines 164 to 189). The joined customer name and the order of the lists are left out.
\<close>

record reminders_page =
  rp_reminders :: "reminder list"
  rp_customers :: "(uuid \<times> string) list"

definition loadData :: "uuid option \<Rightarrow> db \<Rightarrow> reminders_page \<Rightarrow> reminders_page" where
  "loadData user d pg =
     pg\<lparr>rp_reminders := filter (\<lambda>r. Some (r_user_id r) = user) (select_reminders user d),
        rp_customers :=
          map (\<lambda>r. (c_id r, c_name r))
            (filter (\<lambda>r. Some (c_user_id r) = user) (select_customers user d))\<rparr>"

definition js_not :: "bool option \<Rightarrow> bool" where
  \<comment> \<open>\<^verbatim>\<open>!v\<close>: \<^verbatim>\<open>null\<close> and \<^verbatim>\<open>false\<close> are falsy\<close>
  "js_not v = (v \<noteq> Some True)"

definition toggle_upd :: "reminder \<Rightarrow> reminder_upd" where
  \<comment> \<open>\<^verbatim>\<open>{ completed: !reminder.completed }\<close>\<close>
  "toggle_upd reminder =
     \<lparr>ru_customer_id = Keep, ru_user_id = Keep, ru_title = Keep, ru_description = Keep,
      ru_reminder_date = Keep, ru_completed = Assign (Some (js_not (r_completed reminder))),
      ru_created_at = Keep, ru_updated_at = Keep\<rparr>"

definition handleToggleComplete ::
  "uuid option \<Rightarrow> timestamptz \<Rightarrow> reminder \<Rightarrow> reminders_page \<Rightarrow> db
     \<Rightarrow> toast \<times> reminders_page \<times> db" where
  "handleToggleComplete user now reminder pg d =
     (case update_reminders user now (r_id reminder) (toggle_upd reminder) d of
        Inl e \<Rightarrow> (Erro, pg, d)
      | Inr d' \<Rightarrow>
          (if js_not (r_completed reminder) then LembreteConcluido else LembreteReaberto,
           loadData user d' pg, d'))"

text \<open>
  The toggle button of a card (line 445): each reminder of the page's list is drawn with a
  button that calls \<^verbatim>\<open>handleToggleComplete(reminder)\<close>. Clicking the button of the card
  with id \<open>x\<close> does nothing when the page shows no such card.
\<close>

definition toggle_click ::
  "uuid option \<Rightarrow> timestamptz \<Rightarrow> uuid \<Rightarrow> reminders_page \<times> db \<Rightarrow> reminders_page \<times> db" where
  "toggle_click user now x s =
     (case find (\<lambda>r. r_id r = x) (rp_reminders (fst s)) of
        None \<Rightarrow> s
      | Some reminder \<Rightarrow> snd (handleToggleComplete user now reminder (fst s) (snd s)))"

section \<open>Vocabulary of the properties\<close>

text \<open>What a page reads of an answer: \<^verbatim>\<open>const { error } = await ...\<close>.\<close>

definition response :: "error + db \<Rightarrow> error option" where
  "response a = (case a of Inl e \<Rightarrow> Some e | Inr d \<Rightarrow> None)"

text \<open>
  The table and command of a request on one of the four tables, its \<^verbatim>\<open>auth.uid()\<close>, the
  \<open>user_id\<close> an insert provides and the id an update or a delete names. The two requests
  on \<^verbatim>\<open>auth.users\<close> are not requests of a signed-in caller.
\<close>

fun request_table :: "request \<Rightarrow> (tbl \<times> cmd) option" where
  "request_table (InsertAuthUsers now gen new) = None"
| "request_table (DeleteAuthUsers x) = None"
| "request_table (InsertProfiles uid now gen v) = Some (Profiles, INSERT)"
| "request_table (UpdateProfiles uid now x v) = Some (Profiles, UPDATE)"
| "request_table (DeleteProfiles uid x) = Some (Profiles, DELETE)"
| "request_table (InsertCustomers uid now gen v) = Some (Customers, INSERT)"
| "request_table (UpdateCustomers uid now x v) = Some (Customers, UPDATE)"
| "request_table (DeleteCustomers uid x) = Some (Customers, DELETE)"
| "request_table (InsertCustomerInteractions uid now gen v) = Some (CustomerInteractions, INSERT)"
| "request_table (UpdateCustomerInteractions uid x v) = Some (CustomerInteractions, UPDATE)"
| "request_table (DeleteCustomerInteractions uid x) = Some (CustomerInteractions, DELETE)"
| "request_table (InsertReminders uid now gen v) = Some (Reminders, INSERT)"
| "request_table (UpdateReminders uid now x v) = Some (Reminders, UPDATE)"
| "request_table (DeleteReminders uid x) = Some (Reminders, DELETE)"

fun request_uid :: "request \<Rightarrow> uuid option" where
  "request_uid (InsertAuthUsers now gen new) = None"
| "request_uid (DeleteAuthUsers x) = None"
| "request_uid (InsertProfiles uid now gen v) = uid"
| "request_uid (UpdateProfiles uid now x v) = uid"
| "request_uid (DeleteProfiles uid x) = uid"
| "request_uid (InsertCustomers uid now gen v) = uid"
| "request_uid (UpdateCustomers uid now x v) = uid"
| "request_uid (DeleteCustomers uid x) = uid"
| "request_uid (InsertCustomerInteractions uid now gen v) = uid"
| "request_uid (UpdateCustomerInteractions uid x v) = uid"
| "request_uid (DeleteCustomerInteractions uid x) = uid"
| "request_uid (InsertReminders uid now gen v) = uid"
| "request_uid (UpdateReminders uid now x v) = uid"
| "request_uid (DeleteReminders uid x) = uid"

fun request_owner :: "request \<Rightarrow> uuid option" where
  "request_owner (InsertProfiles uid now gen v) = pi_user_id v"
| "request_owner (InsertCustomers uid now gen v) = ci_user_id v"
| "request_owner (InsertCustomerInteractions uid now gen v) = ii_user_id v"
| "request_owner (InsertReminders uid now gen v) = ri_user_id v"
| "request_owner q = None"

fun request_id :: "request \<Rightarrow> uuid option" where
  "request_id (UpdateProfiles uid now x v) = Some x"
| "request_id (DeleteProfiles uid x) = Some x"
| "request_id (UpdateCustomers uid now x v) = Some x"
| "request_id (DeleteCustomers uid x) = Some x"
| "request_id (UpdateCustomerInteractions uid x v) = Some x"
| "request_id (DeleteCustomerInteractions uid x) = Some x"
| "request_id (UpdateReminders uid now x v) = Some x"
| "request_id (DeleteReminders uid x) = Some x"
| "request_id q = None"

text \<open>The rows of the four tables whose owner reference is \<open>a\<close>.\<close>

definition rows_of :: "uuid \<Rightarrow> db \<Rightarrow> profile list \<times> customer list \<times> interaction list \<times> reminder list" where
  "rows_of a d =
     (filter (\<lambda>r. p_user_id r = a) (profiles d), filter (\<lambda>r. c_user_id r = a) (customers d),
      filter (\<lambda>r. i_user_id r = a) (customer_interactions d),
      filter (\<lambda>r. r_user_id r = a) (reminders d))"

text \<open>The ids of all rows of a table, and of the rows that \<open>uid\<close> owns.\<close>

fun all_ids :: "tbl \<Rightarrow> db \<Rightarrow> uuid list" where
  "all_ids Profiles d = map p_id (profiles d)"
| "all_ids Customers d = map c_id (customers d)"
| "all_ids CustomerInteractions d = map i_id (customer_interactions d)"
| "all_ids Reminders d = map r_id (reminders d)"

fun own_ids :: "tbl \<Rightarrow> uuid option \<Rightarrow> db \<Rightarrow> uuid list" where
  "own_ids Profiles uid d = map p_id (filter (\<lambda>r. uid = Some (p_user_id r)) (profiles d))"
| "own_ids Customers uid d = map c_id (filter (\<lambda>r. uid = Some (c_user_id r)) (customers d))"
| "own_ids CustomerInteractions uid d =
     map i_id (filter (\<lambda>r. uid = Some (i_user_id r)) (customer_interactions d))"
| "own_ids Reminders uid d = map r_id (filter (\<lambda>r. uid = Some (r_user_id r)) (reminders d))"

text \<open>A sequence of requests, each its own transaction: one that fails changes nothing.\<close>

fun run :: "request list \<Rightarrow> db \<Rightarrow> db" where
  "run [] d = d"
| "run (q # qs) d = (case exec q d of Inl e \<Rightarrow> run qs d | Inr d' \<Rightarrow> run qs d')"

text \<open>
  The database without the customer \<open>x\<close> and without the interactions and reminders
  whose parent is \<open>x\<close>, every other row as it was: what the specification asks of the
  deletion of a customer.
\<close>

definition cascade_spec :: "uuid \<Rightarrow> db \<Rightarrow> db" where
  "cascade_spec x d =
     d\<lparr>customers := filter (\<lambda>r. c_id r \<noteq> x) (customers d),
       customer_interactions := filter (\<lambda>r. i_customer_id r \<noteq> x) (customer_interactions d),
       reminders := filter (\<lambda>r. r_customer_id r \<noteq> x) (reminders d)\<rparr>"

section \<open>Example data\<close>

definition ana :: auth_user where
  "ana = \<lparr>au_id = 1, au_full_name = Some ''Ana''\<rparr>"

definition bruno :: auth_user where
  "bruno = \<lparr>au_id = 2, au_full_name = None\<rparr>"

definition two_users :: db where
  "two_users = run [InsertAuthUsers 1 101 ana, InsertAuthUsers 2 102 bruno] empty_db"

definition jane :: customer_ins where
  "jane = \<lparr>ci_id = Val (Some 10), ci_user_id = Some 2, ci_name = Some ''Jane'',
     ci_email = None, ci_phone = None, ci_notes = None, ci_tags = DEFAULT,
     ci_created_at = DEFAULT, ci_updated_at = DEFAULT\<rparr>"

definition call_jane :: "uuid \<Rightarrow> interaction_ins" where
  "call_jane u = \<lparr>ii_id = Val (Some 20), ii_customer_id = Some 10, ii_user_id = Some u,
     ii_type = Some ''call'', ii_description = Some ''First call'',
     ii_interaction_date = DEFAULT, ii_created_at = DEFAULT\<rparr>"

definition follow_up :: "bool option arg \<Rightarrow> reminder_ins" where
  "follow_up c = \<lparr>ri_id = Val (Some 30), ri_customer_id = Some 10, ri_user_id = Some 2,
     ri_title = Some ''Follow up'', ri_description = None, ri_reminder_date = Some 50,
     ri_completed = c, ri_created_at = DEFAULT, ri_updated_at = DEFAULT\<rparr>"

text \<open>
  Bruno's customer Jane with his reminder, and an interaction that \<open>u\<close> files under her.
\<close>

definition crm :: "uuid \<Rightarrow> bool option arg \<Rightarrow> db" where
  "crm u c = run [InsertCustomers (Some 2) 3 110 jane,
     InsertCustomerInteractions (Some u) 4 120 (call_jane u),
     InsertReminders (Some 2) 5 130 (follow_up c)] two_users"

definition rename_to :: "string \<Rightarrow> customer_upd" where
  "rename_to n = \<lparr>cu_user_id = Keep, cu_name = Assign (Some n), cu_email = Keep,
     cu_phone = Keep, cu_notes = Keep, cu_tags = Keep, cu_created_at = Keep,
     cu_updated_at = Keep\<rparr>"




text \<open>
  A customer that Bruno inserts with an \<open>updated_at\<close> of his choice, and one with an empty
  name; the reminders page before it has loaded.
\<close>

definition late :: db where
  "late = run [InsertCustomers (Some 2) 3 110 (jane\<lparr>ci_updated_at := Val (Some 100)\<rparr>)]
     two_users"


definition follow_up_row :: "bool option \<Rightarrow> reminder" where
  "follow_up_row c = \<lparr>r_id = 30, r_customer_id = 10, r_user_id = 2, r_title = ''Follow up'',
     r_description = None, r_reminder_date = 50, r_completed = c, r_created_at = Some 5,
     r_updated_at = Some 5\<rparr>"

definition blank :: reminders_page where
  "blank = \<lparr>rp_reminders = [], rp_customers = []\<rparr>"

section \<open>Lemmas on the statements\<close>

lemma update_rows_skip:
  "\<forall>r\<in>set rs. \<not> m r \<Longrightarrow> update_rows m f rs = Inr rs"
  by (induction rs) auto

lemma update_rows_map:
  assumes "update_rows m f rs = Inr rs'"
    and "\<And>r r'. m r \<Longrightarrow> f r = Inr r' \<Longrightarrow> g r' = g r"
  shows "map g rs' = map g rs"
  using assms(1)
proof (induction rs arbitrary: rs')
  case Nil
  then show ?case by simp
next
  case (Cons r rs)
  then show ?case
    by (auto split: if_splits sum.splits dest: assms(2))
qed

lemma update_rows_list_all:
  assumes "update_rows m f rs = Inr rs'"
    and "list_all P rs"
    and "\<And>r r'. m r \<Longrightarrow> f r = Inr r' \<Longrightarrow> P r \<Longrightarrow> P r'"
  shows "list_all P rs'"
  using assms(1,2)
proof (induction rs arbitrary: rs')
  case Nil
  then show ?case by simp
next
  case (Cons r rs)
  then show ?case
    by (auto split: if_splits sum.splits dest: assms(3))
qed

lemma update_rows_filter:
  assumes "update_rows m f rs = Inr rs'"
    and "\<And>r. m r \<Longrightarrow> \<not> P r"
    and "\<And>r r'. m r \<Longrightarrow> f r = Inr r' \<Longrightarrow> \<not> P r'"
  shows "filter P rs' = filter P rs"
  using assms(1)
proof (induction rs arbitrary: rs')
  case Nil
  then show ?case by simp
next
  case (Cons r rs)
  then show ?case
    by (auto split: if_splits sum.splits dest: assms(2,3))
qed

text \<open>What the new row of a successful update keeps of the old one.\<close>

lemma profiles_new_row_keeps:
  "profiles_new_row uid now v d old = Inr new \<Longrightarrow>
     p_id new = p_id old \<and> uid = Some (p_user_id new) \<and> p_updated_at new = Some now
     \<and> (p_user_id new = p_user_id old \<or> p_user_id new \<in> set (map au_id (users d)))"
  by (auto simp: profiles_new_row_def Let_def update_updated_at_column_def
      split: if_splits option.splits)

lemma customers_new_row_keeps:
  "customers_new_row uid now v d old = Inr new \<Longrightarrow>
     c_id new = c_id old \<and> uid = Some (c_user_id new) \<and> c_updated_at new = Some now
     \<and> (c_user_id new = c_user_id old \<or> c_user_id new \<in> set (map au_id (users d)))"
  by (auto simp: customers_new_row_def Let_def update_updated_at_column_def
      split: if_splits option.splits)

lemma customer_interactions_new_row_keeps:
  "customer_interactions_new_row uid v d old = Inr new \<Longrightarrow>
     i_id new = i_id old \<and> uid = Some (i_user_id new)
     \<and> (i_user_id new = i_user_id old \<or> i_user_id new \<in> set (map au_id (users d)))
     \<and> (i_customer_id new = i_customer_id old \<or> i_customer_id new \<in> set (map c_id (customers d)))"
  by (auto simp: customer_interactions_new_row_def Let_def
      split: if_splits option.splits)

lemma reminders_new_row_keeps:
  "reminders_new_row uid now v d old = Inr new \<Longrightarrow>
     r_id new = r_id old \<and> uid = Some (r_user_id new) \<and> r_updated_at new = Some now
     \<and> (r_user_id new = r_user_id old \<or> r_user_id new \<in> set (map au_id (users d)))
     \<and> (r_customer_id new = r_customer_id old \<or> r_customer_id new \<in> set (map c_id (customers d)))"
  by (auto simp: reminders_new_row_def Let_def update_updated_at_column_def
      split: if_splits option.splits)

lemma fk_after_delete:
  assumes "list_all (\<lambda>r. k r \<in> set (map g ps)) cs"
  shows "list_all (\<lambda>r. k r \<in> set (map g (filter (\<lambda>p. \<not> S p) ps)))
           (filter (\<lambda>r. Q r \<and> k r \<notin> set (map g (filter S ps))) cs)"
  using assms by (auto simp: list_all_iff)

lemma fk_after_filter:
  assumes "list_all (\<lambda>r. k r \<in> set (map g ps)) cs"
  shows "list_all (\<lambda>r. k r \<in> set (map g (filter (\<lambda>p. g p \<noteq> x) ps)))
           (filter (\<lambda>r. k r \<noteq> x \<and> Q r) cs)"
  using assms by (auto simp: list_all_iff)

lemma list_all_filterI: "list_all P xs \<Longrightarrow> list_all P (filter Q xs)"
  by (auto simp: list_all_iff)

lemma fk_delete_customers:
  assumes "foreign_keys d" and "delete_customers uid x d = Inr d'"
  shows "foreign_keys d'"
proof -
  define S where "S = (\<lambda>r::customer. c_id r = x \<and> policy Customers DELETE uid (Some (c_user_id r)))"
  have u: "users d' = users d" and p: "profiles d' = profiles d"
    and c: "customers d' = filter (\<lambda>r. \<not> S r) (customers d)"
    and i: "customer_interactions d' =
      filter (\<lambda>r. True \<and> i_customer_id r \<notin> set (map c_id (filter S (customers d))))
        (customer_interactions d)"
    and r: "reminders d' =
      filter (\<lambda>r. True \<and> r_customer_id r \<notin> set (map c_id (filter S (customers d))))
        (reminders d)"
    using assms(2) by (auto simp: delete_customers_def S_def Let_def)
  show ?thesis
    using assms(1) unfolding foreign_keys_def u p c i r
    by (intro conjI fk_after_delete list_all_filterI) simp_all
qed

lemma fk_delete_auth_users:
  assumes "foreign_keys d" and "delete_auth_users x d = Inr d'"
  shows "foreign_keys d'"
proof (cases "x \<in> set (map au_id (users d))")
  case False
  then show ?thesis using assms by (simp add: delete_auth_users_def)
next
  case True
  define S where "S = (\<lambda>r::customer. c_user_id r = x)"
  have u: "users d' = filter (\<lambda>r. au_id r \<noteq> x) (users d)"
    and p: "profiles d' = filter (\<lambda>r. p_user_id r \<noteq> x \<and> True) (profiles d)"
    and c: "customers d' = filter (\<lambda>r. \<not> S r) (customers d)"
    and c2: "customers d' = filter (\<lambda>r. c_user_id r \<noteq> x \<and> True) (customers d)"
    and i: "customer_interactions d' =
      filter (\<lambda>r. i_user_id r \<noteq> x \<and> i_customer_id r \<notin> set (map c_id (filter S (customers d))))
        (customer_interactions d)"
    and r: "reminders d' =
      filter (\<lambda>r. r_user_id r \<noteq> x \<and> r_customer_id r \<notin> set (map c_id (filter S (customers d))))
        (reminders d)"
    using assms(2) True by (auto simp: delete_auth_users_def S_def Let_def)
  have 1: "list_all (\<lambda>r. p_user_id r \<in> set (map au_id (users d'))) (profiles d')"
    using assms(1) unfolding foreign_keys_def u p by (intro fk_after_filter) simp
  have 2: "list_all (\<lambda>r. c_user_id r \<in> set (map au_id (users d'))) (customers d')"
    using assms(1) unfolding foreign_keys_def u c2 by (intro fk_after_filter) simp
  have 3: "list_all (\<lambda>r. i_user_id r \<in> set (map au_id (users d'))) (customer_interactions d')"
    using assms(1) unfolding foreign_keys_def u i by (intro fk_after_filter) simp
  have 4: "list_all (\<lambda>r. i_customer_id r \<in> set (map c_id (customers d'))) (customer_interactions d')"
    using assms(1) unfolding foreign_keys_def c i by (intro fk_after_delete) simp
  have 5: "list_all (\<lambda>r. r_user_id r \<in> set (map au_id (users d'))) (reminders d')"
    using assms(1) unfolding foreign_keys_def u r by (intro fk_after_filter) simp
  have 6: "list_all (\<lambda>r. r_customer_id r \<in> set (map c_id (customers d'))) (reminders d')"
    using assms(1) unfolding foreign_keys_def c r by (intro fk_after_delete) simp
  show ?thesis unfolding foreign_keys_def using 1 2 3 4 5 6 by simp
qed

lemma update_profiles_Inr:
  assumes "update_profiles uid now x v d = Inr d'"
  obtains rows where "d' = d\<lparr>profiles := rows\<rparr>"
    and "update_rows (\<lambda>r. p_id r = x \<and> policy Profiles UPDATE uid (Some (p_user_id r)))
           (profiles_new_row uid now v d) (profiles d) = Inr rows"
  using assms by (auto simp: update_profiles_def split: sum.splits)

lemma update_customers_Inr:
  assumes "update_customers uid now x v d = Inr d'"
  obtains rows where "d' = d\<lparr>customers := rows\<rparr>"
    and "update_rows (\<lambda>r. c_id r = x \<and> policy Customers UPDATE uid (Some (c_user_id r)))
           (customers_new_row uid now v d) (customers d) = Inr rows"
  using assms by (auto simp: update_customers_def split: sum.splits)

lemma update_customer_interactions_Inr:
  assumes "update_customer_interactions uid x v d = Inr d'"
  obtains rows where "d' = d\<lparr>customer_interactions := rows\<rparr>"
    and "update_rows
           (\<lambda>r. i_id r = x \<and> policy CustomerInteractions UPDATE uid (Some (i_user_id r)))
           (customer_interactions_new_row uid v d) (customer_interactions d) = Inr rows"
  using assms by (auto simp: update_customer_interactions_def split: sum.splits)

lemma update_reminders_Inr:
  assumes "update_reminders uid now x v d = Inr d'"
  obtains rows where "d' = d\<lparr>reminders := rows\<rparr>"
    and "update_rows (\<lambda>r. r_id r = x \<and> policy Reminders UPDATE uid (Some (r_user_id r)))
           (reminders_new_row uid now v d) (reminders d) = Inr rows"
  using assms by (auto simp: update_reminders_def split: sum.splits)

lemma fk_update_profiles:
  assumes "foreign_keys d" and "update_profiles uid now x v d = Inr d'"
  shows "foreign_keys d'"
proof -
  from assms(2) obtain rows where d': "d' = d\<lparr>profiles := rows\<rparr>"
    and rows: "update_rows (\<lambda>r. p_id r = x \<and> policy Profiles UPDATE uid (Some (p_user_id r)))
           (profiles_new_row uid now v d) (profiles d) = Inr rows"
    by (rule update_profiles_Inr)
  have "list_all (\<lambda>r. p_user_id r \<in> set (map au_id (users d))) rows"
    using rows
  proof (rule update_rows_list_all)
    show "list_all (\<lambda>r. p_user_id r \<in> set (map au_id (users d))) (profiles d)"
      using assms(1) by (simp add: foreign_keys_def)
  next
    fix r r' assume "profiles_new_row uid now v d r = Inr r'"
      and "p_user_id r \<in> set (map au_id (users d))"
    then show "p_user_id r' \<in> set (map au_id (users d))"
      using profiles_new_row_keeps by fastforce
  qed
  then show ?thesis using assms(1) by (simp add: foreign_keys_def d')
qed

lemma fk_update_customers:
  assumes "foreign_keys d" and "update_customers uid now x v d = Inr d'"
  shows "foreign_keys d'"
proof -
  from assms(2) obtain rows where d': "d' = d\<lparr>customers := rows\<rparr>"
    and rows: "update_rows (\<lambda>r. c_id r = x \<and> policy Customers UPDATE uid (Some (c_user_id r)))
           (customers_new_row uid now v d) (customers d) = Inr rows"
    by (rule update_customers_Inr)
  have "list_all (\<lambda>r. c_user_id r \<in> set (map au_id (users d))) rows"
    using rows
  proof (rule update_rows_list_all)
    show "list_all (\<lambda>r. c_user_id r \<in> set (map au_id (users d))) (customers d)"
      using assms(1) by (simp add: foreign_keys_def)
  next
    fix r r' assume "customers_new_row uid now v d r = Inr r'"
      and "c_user_id r \<in> set (map au_id (users d))"
    then show "c_user_id r' \<in> set (map au_id (users d))"
      using customers_new_row_keeps by fastforce
  qed
  moreover have "map c_id rows = map c_id (customers d)"
    using rows by (rule update_rows_map) (simp add: customers_new_row_keeps)
  ultimately show ?thesis using assms(1) by (simp add: foreign_keys_def d')
qed

lemma fk_update_customer_interactions:
  assumes "foreign_keys d" and "update_customer_interactions uid x v d = Inr d'"
  shows "foreign_keys d'"
proof -
  from assms(2) obtain rows where d': "d' = d\<lparr>customer_interactions := rows\<rparr>"
    and rows: "update_rows
           (\<lambda>r. i_id r = x \<and> policy CustomerInteractions UPDATE uid (Some (i_user_id r)))
           (customer_interactions_new_row uid v d) (customer_interactions d) = Inr rows"
    by (rule update_customer_interactions_Inr)
  have "list_all (\<lambda>r. i_user_id r \<in> set (map au_id (users d))) rows"
    using rows
  proof (rule update_rows_list_all)
    show "list_all (\<lambda>r. i_user_id r \<in> set (map au_id (users d))) (customer_interactions d)"
      using assms(1) by (simp add: foreign_keys_def)
  next
    fix r r' assume "customer_interactions_new_row uid v d r = Inr r'"
      and "i_user_id r \<in> set (map au_id (users d))"
    then show "i_user_id r' \<in> set (map au_id (users d))"
      using customer_interactions_new_row_keeps by fastforce
  qed
  moreover have "list_all (\<lambda>r. i_customer_id r \<in> set (map c_id (customers d))) rows"
    using rows
  proof (rule update_rows_list_all)
    show "list_all (\<lambda>r. i_customer_id r \<in> set (map c_id (customers d))) (customer_interactions d)"
      using assms(1) by (simp add: foreign_keys_def)
  next
    fix r r' assume "customer_interactions_new_row uid v d r = Inr r'"
      and "i_customer_id r \<in> set (map c_id (customers d))"
    then show "i_customer_id r' \<in> set (map c_id (customers d))"
      using customer_interactions_new_row_keeps by fastforce
  qed
  ultimately show ?thesis using assms(1) by (simp add: foreign_keys_def d')
qed

lemma fk_update_reminders:
  assumes "foreign_keys d" and "update_reminders uid now x v d = Inr d'"
  shows "foreign_keys d'"
proof -
  from assms(2) obtain rows where d': "d' = d\<lparr>reminders := rows\<rparr>"
    and rows: "update_rows (\<lambda>r. r_id r = x \<and> policy Reminders UPDATE uid (Some (r_user_id r)))
           (reminders_new_row uid now v d) (reminders d) = Inr rows"
    by (rule update_reminders_Inr)
  have "list_all (\<lambda>r. r_user_id r \<in> set (map au_id (users d))) rows"
    using rows
  proof (rule update_rows_list_all)
    show "list_all (\<lambda>r. r_user_id r \<in> set (map au_id (users d))) (reminders d)"
      using assms(1) by (simp add: foreign_keys_def)
  next
    fix r r' assume "reminders_new_row uid now v d r = Inr r'"
      and "r_user_id r \<in> set (map au_id (users d))"
    then show "r_user_id r' \<in> set (map au_id (users d))"
      using reminders_new_row_keeps by fastforce
  qed
  moreover have "list_all (\<lambda>r. r_customer_id r \<in> set (map c_id (customers d))) rows"
    using rows
  proof (rule update_rows_list_all)
    show "list_all (\<lambda>r. r_customer_id r \<in> set (map c_id (customers d))) (reminders d)"
      using assms(1) by (simp add: foreign_keys_def)
  next
    fix r r' assume "reminders_new_row uid now v d r = Inr r'"
      and "r_customer_id r \<in> set (map c_id (customers d))"
    then show "r_customer_id r' \<in> set (map c_id (customers d))"
      using reminders_new_row_keeps by fastforce
  qed
  ultimately show ?thesis using assms(1) by (simp add: foreign_keys_def d')
qed

lemma policy_eq [simp]:
  "policy Customers c uid w = (uid \<noteq> None \<and> w \<noteq> None \<and> uid = w)"
  "policy CustomerInteractions c uid w = (uid \<noteq> None \<and> w \<noteq> None \<and> uid = w)"
  "policy Reminders c uid w = (uid \<noteq> None \<and> w \<noteq> None \<and> uid = w)"
  "c \<noteq> DELETE \<Longrightarrow> policy Profiles c uid w = (uid \<noteq> None \<and> w \<noteq> None \<and> uid = w)"
  by (cases c; simp)+

lemma profiles_insert_row_Inr:
  assumes "profiles_insert_row now gen v d = Inr d'"
  shows "\<exists>row. d' = d\<lparr>profiles := profiles d @ [row]\<rparr> \<and>
      p_id row \<notin> set (map p_id (profiles d)) \<and>
      p_user_id row \<notin> set (map p_user_id (profiles d)) \<and>
      p_user_id row \<in> set (map au_id (users d)) \<and>
      pi_user_id v = Some (p_user_id row)"
  using assms
  by (fastforce simp: profiles_insert_row_def split: option.splits if_splits)

lemma insert_profiles_Inr:
  assumes "insert_profiles uid now gen v d = Inr d'"
  shows "\<exists>row. d' = d\<lparr>profiles := profiles d @ [row]\<rparr> \<and>
      p_id row \<notin> set (map p_id (profiles d)) \<and>
      p_user_id row \<notin> set (map p_user_id (profiles d)) \<and>
      p_user_id row \<in> set (map au_id (users d)) \<and>
      uid = Some (p_user_id row)"
proof -
  from assms have pol: "policy Profiles INSERT uid (pi_user_id v)"
    and ins: "profiles_insert_row now gen v d = Inr d'"
    by (auto simp: insert_profiles_def split: if_splits)
  from profiles_insert_row_Inr [OF ins] pol show ?thesis by auto
qed

lemma insert_customers_Inr:
  assumes "insert_customers uid now gen v d = Inr d'"
  shows "\<exists>row. d' = d\<lparr>customers := customers d @ [row]\<rparr> \<and>
      c_id row \<notin> set (map c_id (customers d)) \<and>
      c_user_id row \<in> set (map au_id (users d)) \<and>
      uid = Some (c_user_id row) \<and> ci_name v = Some (c_name row)"
  using assms
  by (fastforce simp: insert_customers_def split: option.splits if_splits)

lemma insert_customer_interactions_Inr:
  assumes "insert_customer_interactions uid now gen v d = Inr d'"
  shows "\<exists>row. d' = d\<lparr>customer_interactions := customer_interactions d @ [row]\<rparr> \<and>
      i_id row \<notin> set (map i_id (customer_interactions d)) \<and>
      i_user_id row \<in> set (map au_id (users d)) \<and>
      i_customer_id row \<in> set (map c_id (customers d)) \<and>
      uid = Some (i_user_id row)"
  using assms
  by (fastforce simp: insert_customer_interactions_def split: option.splits if_splits)

lemma insert_reminders_Inr:
  assumes "insert_reminders uid now gen v d = Inr d'"
  shows "\<exists>row. d' = d\<lparr>reminders := reminders d @ [row]\<rparr> \<and>
      r_id row \<notin> set (map r_id (reminders d)) \<and>
      r_user_id row \<in> set (map au_id (users d)) \<and>
      r_customer_id row \<in> set (map c_id (customers d)) \<and>
      uid = Some (r_user_id row)"
  using assms
  by (fastforce simp: insert_reminders_def split: option.splits if_splits)

lemma insert_auth_users_Inr:
  assumes "insert_auth_users now gen new d = Inr d'"
  shows "\<exists>row. d' = d\<lparr>users := users d @ [new], profiles := profiles d @ [row]\<rparr> \<and>
      au_id new \<notin> set (map au_id (users d)) \<and>
      p_id row \<notin> set (map p_id (profiles d)) \<and>
      p_user_id row \<notin> set (map p_user_id (profiles d)) \<and>
      p_user_id row = au_id new"
proof -
  from assms have new: "au_id new \<notin> set (map au_id (users d))"
    and ins: "profiles_insert_row now gen
       \<lparr>pi_id = DEFAULT, pi_user_id = Some (au_id new),
        pi_full_name = Some (coalesce (au_full_name new) []),
        pi_business_name = None, pi_plan = DEFAULT, pi_created_at = DEFAULT,
        pi_updated_at = DEFAULT\<rparr> (d\<lparr>users := users d @ [new]\<rparr>) = Inr d'"
    by (auto simp: insert_auth_users_def handle_new_user_def split: if_splits)
  from profiles_insert_row_Inr [OF ins] new show ?thesis by auto
qed

lemma fk_insert_auth_users:
  assumes "foreign_keys d" and "insert_auth_users now gen new d = Inr d'"
  shows "foreign_keys d'"
  using insert_auth_users_Inr [OF assms(2)] assms(1)
  by (auto simp: foreign_keys_def list_all_iff)

lemma fk_insert_profiles:
  assumes "foreign_keys d" and "insert_profiles uid now gen v d = Inr d'"
  shows "foreign_keys d'"
  using insert_profiles_Inr [OF assms(2)] assms(1)
  by (auto simp: foreign_keys_def list_all_iff)

lemma fk_insert_customers:
  assumes "foreign_keys d" and "insert_customers uid now gen v d = Inr d'"
  shows "foreign_keys d'"
  using insert_customers_Inr [OF assms(2)] assms(1)
  by (auto simp: foreign_keys_def list_all_iff)

lemma fk_insert_customer_interactions:
  assumes "foreign_keys d" and "insert_customer_interactions uid now gen v d = Inr d'"
  shows "foreign_keys d'"
  using insert_customer_interactions_Inr [OF assms(2)] assms(1)
  by (auto simp: foreign_keys_def list_all_iff)

lemma fk_insert_reminders:
  assumes "foreign_keys d" and "insert_reminders uid now gen v d = Inr d'"
  shows "foreign_keys d'"
  using insert_reminders_Inr [OF assms(2)] assms(1)
  by (auto simp: foreign_keys_def list_all_iff)

lemma fk_delete_profiles:
  "foreign_keys d \<Longrightarrow> delete_profiles uid x d = Inr d' \<Longrightarrow> foreign_keys d'"
  by (auto simp: foreign_keys_def delete_profiles_def list_all_iff)

lemma fk_delete_customer_interactions:
  "foreign_keys d \<Longrightarrow> delete_customer_interactions uid x d = Inr d' \<Longrightarrow> foreign_keys d'"
  by (auto simp: foreign_keys_def delete_customer_interactions_def list_all_iff)

lemma fk_delete_reminders:
  "foreign_keys d \<Longrightarrow> delete_reminders uid x d = Inr d' \<Longrightarrow> foreign_keys d'"
  by (auto simp: foreign_keys_def delete_reminders_def list_all_iff)

lemma fk_exec:
  assumes "foreign_keys d" and "exec q d = Inr d'"
  shows "foreign_keys d'"
  using assms
  by (cases q; simp only: exec.simps)
    (erule (1) fk_insert_auth_users fk_delete_auth_users fk_insert_profiles
      fk_update_profiles fk_delete_profiles fk_insert_customers fk_update_customers
      fk_delete_customers fk_insert_customer_interactions fk_update_customer_interactions
      fk_delete_customer_interactions fk_insert_reminders fk_update_reminders
      fk_delete_reminders)+

lemma uk_insert_auth_users:
  assumes "unique_keys d" and "insert_auth_users now gen new d = Inr d'"
  shows "unique_keys d'"
  using insert_auth_users_Inr [OF assms(2)] assms(1)
  by (auto simp: unique_keys_def)

lemma uk_insert_profiles:
  assumes "unique_keys d" and "insert_profiles uid now gen v d = Inr d'"
  shows "unique_keys d'"
  using insert_profiles_Inr [OF assms(2)] assms(1)
  by (auto simp: unique_keys_def)

lemma uk_insert_customers:
  assumes "unique_keys d" and "insert_customers uid now gen v d = Inr d'"
  shows "unique_keys d'"
  using insert_customers_Inr [OF assms(2)] assms(1)
  by (auto simp: unique_keys_def)

lemma uk_insert_customer_interactions:
  assumes "unique_keys d" and "insert_customer_interactions uid now gen v d = Inr d'"
  shows "unique_keys d'"
  using insert_customer_interactions_Inr [OF assms(2)] assms(1)
  by (auto simp: unique_keys_def)

lemma uk_insert_reminders:
  assumes "unique_keys d" and "insert_reminders uid now gen v d = Inr d'"
  shows "unique_keys d'"
  using insert_reminders_Inr [OF assms(2)] assms(1)
  by (auto simp: unique_keys_def)

lemma uk_delete_auth_users:
  "unique_keys d \<Longrightarrow> delete_auth_users x d = Inr d' \<Longrightarrow> unique_keys d'"
  by (auto simp: unique_keys_def delete_auth_users_def Let_def distinct_map_filter
      split: if_splits)

lemma uk_delete_profiles:
  "unique_keys d \<Longrightarrow> delete_profiles uid x d = Inr d' \<Longrightarrow> unique_keys d'"
  by (auto simp: unique_keys_def delete_profiles_def distinct_map_filter)

lemma uk_delete_customers:
  "unique_keys d \<Longrightarrow> delete_customers uid x d = Inr d' \<Longrightarrow> unique_keys d'"
  by (auto simp: unique_keys_def delete_customers_def Let_def distinct_map_filter)

lemma uk_delete_customer_interactions:
  "unique_keys d \<Longrightarrow> delete_customer_interactions uid x d = Inr d' \<Longrightarrow> unique_keys d'"
  by (auto simp: unique_keys_def delete_customer_interactions_def distinct_map_filter)

lemma uk_delete_reminders:
  "unique_keys d \<Longrightarrow> delete_reminders uid x d = Inr d' \<Longrightarrow> unique_keys d'"
  by (auto simp: unique_keys_def delete_reminders_def distinct_map_filter)

lemma uk_update_profiles:
  assumes "unique_keys d" and "update_profiles uid now x v d = Inr d'"
  shows "unique_keys d'"
proof -
  from assms(2) obtain rows where d': "d' = d\<lparr>profiles := rows\<rparr>"
    and rows: "update_rows (\<lambda>r. p_id r = x \<and> policy Profiles UPDATE uid (Some (p_user_id r)))
           (profiles_new_row uid now v d) (profiles d) = Inr rows"
    by (rule update_profiles_Inr)
  have "map p_id rows = map p_id (profiles d)"
    using rows by (rule update_rows_map) (simp add: profiles_new_row_keeps)
  moreover have "map p_user_id rows = map p_user_id (profiles d)"
    using rows by (rule update_rows_map) (use profiles_new_row_keeps in fastforce)
  ultimately show ?thesis using assms(1) by (simp add: unique_keys_def d')
qed

lemma uk_update_customers:
  assumes "unique_keys d" and "update_customers uid now x v d = Inr d'"
  shows "unique_keys d'"
proof -
  from assms(2) obtain rows where d': "d' = d\<lparr>customers := rows\<rparr>"
    and rows: "update_rows (\<lambda>r. c_id r = x \<and> policy Customers UPDATE uid (Some (c_user_id r)))
           (customers_new_row uid now v d) (customers d) = Inr rows"
    by (rule update_customers_Inr)
  have "map c_id rows = map c_id (customers d)"
    using rows by (rule update_rows_map) (simp add: customers_new_row_keeps)
  then show ?thesis using assms(1) by (simp add: unique_keys_def d')
qed

lemma uk_update_customer_interactions:
  assumes "unique_keys d" and "update_customer_interactions uid x v d = Inr d'"
  shows "unique_keys d'"
proof -
  from assms(2) obtain rows where d': "d' = d\<lparr>customer_interactions := rows\<rparr>"
    and rows: "update_rows
           (\<lambda>r. i_id r = x \<and> policy CustomerInteractions UPDATE uid (Some (i_user_id r)))
           (customer_interactions_new_row uid v d) (customer_interactions d) = Inr rows"
    by (rule update_customer_interactions_Inr)
  have "map i_id rows = map i_id (customer_interactions d)"
    using rows by (rule update_rows_map) (simp add: customer_interactions_new_row_keeps)
  then show ?thesis using assms(1) by (simp add: unique_keys_def d')
qed

lemma uk_update_reminders:
  assumes "unique_keys d" and "update_reminders uid now x v d = Inr d'"
  shows "unique_keys d'"
proof -
  from assms(2) obtain rows where d': "d' = d\<lparr>reminders := rows\<rparr>"
    and rows: "update_rows (\<lambda>r. r_id r = x \<and> policy Reminders UPDATE uid (Some (r_user_id r)))
           (reminders_new_row uid now v d) (reminders d) = Inr rows"
    by (rule update_reminders_Inr)
  have "map r_id rows = map r_id (reminders d)"
    using rows by (rule update_rows_map) (simp add: reminders_new_row_keeps)
  then show ?thesis using assms(1) by (simp add: unique_keys_def d')
qed

lemma uk_exec:
  assumes "unique_keys d" and "exec q d = Inr d'"
  shows "unique_keys d'"
  using assms
  by (cases q; simp only: exec.simps)
    (erule (1) uk_insert_auth_users uk_delete_auth_users uk_insert_profiles
      uk_update_profiles uk_delete_profiles uk_insert_customers uk_update_customers
      uk_delete_customers uk_insert_customer_interactions uk_update_customer_interactions
      uk_delete_customer_interactions uk_insert_reminders uk_update_reminders
      uk_delete_reminders)+

lemma reachable_keys: "reachable d \<Longrightarrow> foreign_keys d \<and> unique_keys d"
proof (induction rule: reachable.induct)
  case reachable_empty
  show ?case by (simp add: foreign_keys_def unique_keys_def empty_db_def)
next
  case (reachable_exec d q d')
  then show ?case using fk_exec uk_exec by blast
qed

section \<open>The example databases, computed\<close>

lemma two_users_eq:
  "two_users = \<lparr>users = [ana, bruno],
    profiles =
      [\<lparr>p_id = 101, p_user_id = 1, p_full_name = Some ''Ana'',
          p_business_name = None, p_plan = Some ''free'',
          p_created_at = Some 1, p_updated_at = Some 1\<rparr>,
       \<lparr>p_id = 102, p_user_id = 2, p_full_name = Some [],
          p_business_name = None, p_plan = Some ''free'',
          p_created_at = Some 2, p_updated_at = Some 2\<rparr>],
    customers = [], customer_interactions = [], reminders = []\<rparr>"
  by (simp add: two_users_def empty_db_def insert_auth_users_def handle_new_user_def
    profiles_insert_row_def fill_def coalesce_def plan_check_def ana_def bruno_def)

lemma crm_eq:
  "crm u c = \<lparr>users = [ana, bruno],
    profiles =
      [\<lparr>p_id = 101, p_user_id = 1, p_full_name = Some ''Ana'',
          p_business_name = None, p_plan = Some ''free'',
          p_created_at = Some 1, p_updated_at = Some 1\<rparr>,
       \<lparr>p_id = 102, p_user_id = 2, p_full_name = Some [],
          p_business_name = None, p_plan = Some ''free'',
          p_created_at = Some 2, p_updated_at = Some 2\<rparr>],
    customers =
      [\<lparr>c_id = 10, c_user_id = 2, c_name = ''Jane'', c_email = None,
          c_phone = None, c_notes = None, c_tags = Some [],
          c_created_at = Some 3, c_updated_at = Some 3\<rparr>],
    customer_interactions = (if u = 1 \<or> u = 2 then
      [\<lparr>i_id = 20, i_customer_id = 10, i_user_id = u, i_type = ''call'',
          i_description = ''First call'', i_interaction_date = Some 4,
          i_created_at = Some 4\<rparr>] else []),
    reminders =
      [\<lparr>r_id = 30, r_customer_id = 10, r_user_id = 2,
          r_title = ''Follow up'', r_description = None,
          r_reminder_date = 50, r_completed = fill c (Some False),
          r_created_at = Some 5, r_updated_at = Some 5\<rparr>]\<rparr>"
  by (simp add: crm_def two_users_def empty_db_def insert_auth_users_def handle_new_user_def
    profiles_insert_row_def fill_def coalesce_def plan_check_def ana_def bruno_def
    insert_customers_def jane_def insert_customer_interactions_def call_jane_def type_check_def
    insert_reminders_def follow_up_def)

lemma run_reachable: "reachable d \<Longrightarrow> reachable (run qs d)"
proof (induction qs arbitrary: d)
  case Nil
  then show ?case by simp
next
  case (Cons q qs)
  then show ?case
    by (cases "exec q d") (auto intro: reachable_exec)
qed

lemma two_users_reachable: "reachable two_users"
  unfolding two_users_def by (intro run_reachable reachable_empty)

lemma crm_reachable: "reachable (crm u c)"
  unfolding crm_def by (intro run_reachable two_users_reachable)

section \<open>The claims\<close>

text \<open>
  C5. An insert into any of the four tables whose \<open>user_id\<close> is not the caller's identity
  (or that carries no identity) is rejected with the row-level-security error, so no row is
  created; when the \<open>user_id\<close> is the caller's identity the \<^verbatim>\<open>INSERT\<close> policy holds and
  the insert is not rejected with that error.
\<close>

theorem insert_owner_check:
  assumes "request_table q = Some (t, INSERT)"
  shows "(request_owner q \<noteq> request_uid q \<or> request_uid q = None
           \<longrightarrow> exec q d = Inl RlsViolation)
     \<and> (request_owner q = request_uid q \<and> request_uid q \<noteq> None
           \<longrightarrow> policy t INSERT (request_uid q) (request_owner q)
               \<and> exec q d \<noteq> Inl RlsViolation)"
proof (cases q)
  case (InsertProfiles uid now gen v)
  then show ?thesis using assms
    by (auto simp: insert_profiles_def profiles_insert_row_def split: option.splits)
next
  case (InsertCustomers uid now gen v)
  then show ?thesis using assms
    by (auto simp: insert_customers_def split: option.splits)
next
  case (InsertCustomerInteractions uid now gen v)
  then show ?thesis using assms
    by (auto simp: insert_customer_interactions_def split: option.splits)
next
  case (InsertReminders uid now gen v)
  then show ?thesis using assms
    by (auto simp: insert_reminders_def split: option.splits)
qed (use assms in simp_all)

theorem insert_owner_check_witness:
  "request_table (InsertCustomers (Some 1) 3 110 jane) = Some (Customers, INSERT)
   \<and> request_owner (InsertCustomers (Some 1) 3 110 jane)
       \<noteq> request_uid (InsertCustomers (Some 1) 3 110 jane)
   \<and> exec (InsertCustomers (Some 1) 3 110 jane) two_users = Inl RlsViolation
   \<and> request_table (InsertCustomers (Some 2) 3 110 jane) = Some (Customers, INSERT)
   \<and> request_owner (InsertCustomers (Some 2) 3 110 jane)
       = request_uid (InsertCustomers (Some 2) 3 110 jane)
   \<and> policy Customers INSERT (Some 2) (Some 2)
   \<and> exec (InsertCustomers (Some 2) 3 110 jane) two_users \<noteq> Inl RlsViolation"
  using insert_owner_check [of "InsertCustomers (Some 1) 3 110 jane" Customers two_users]
    insert_owner_check [of "InsertCustomers (Some 2) 3 110 jane" Customers two_users]
  by (simp add: jane_def)

text \<open>
  C7. An update that names a row the caller does not own has the same outcome whether the
  row exists under another owner (database \<open>d1\<close>) or does not exist at all (database
  \<open>d2\<close>): in both the statement sees no row, answers without an error and leaves the
  database as it was, so the two answers are equal.
\<close>

theorem update_not_owned:
  assumes "request_table q = Some (t, UPDATE)"
    and "request_id q = Some x"
    and "x \<notin> set (own_ids t (request_uid q) d1)" and "x \<in> set (all_ids t d1)"
    and "x \<notin> set (all_ids t d2)"
  shows "exec q d1 = Inr d1 \<and> exec q d2 = Inr d2
     \<and> response (exec q d1) = response (exec q d2)"
proof -
  have "exec q d = Inr d" if "x \<notin> set (own_ids t (request_uid q) d)" for d
  proof (cases q)
    case (UpdateProfiles uid now y v)
    with assms(1,2) that
    have "\<forall>r\<in>set (profiles d). \<not> (p_id r = y \<and> policy Profiles UPDATE uid (Some (p_user_id r)))"
      by auto
    then show ?thesis using UpdateProfiles
      by (simp add: update_profiles_def update_rows_skip)
  next
    case (UpdateCustomers uid now y v)
    with assms(1,2) that
    have "\<forall>r\<in>set (customers d). \<not> (c_id r = y \<and> policy Customers UPDATE uid (Some (c_user_id r)))"
      by auto
    then show ?thesis using UpdateCustomers
      by (simp add: update_customers_def update_rows_skip)
  next
    case (UpdateCustomerInteractions uid y v)
    with assms(1,2) that
    have "\<forall>r\<in>set (customer_interactions d).
        \<not> (i_id r = y \<and> policy CustomerInteractions UPDATE uid (Some (i_user_id r)))"
      by auto
    then show ?thesis using UpdateCustomerInteractions
      by (simp add: update_customer_interactions_def update_rows_skip)
  next
    case (UpdateReminders uid now y v)
    with assms(1,2) that
    have "\<forall>r\<in>set (reminders d). \<not> (r_id r = y \<and> policy Reminders UPDATE uid (Some (r_user_id r)))"
      by auto
    then show ?thesis using UpdateReminders
      by (simp add: update_reminders_def update_rows_skip)
  qed (use assms(1) in simp_all)
  moreover have "x \<notin> set (own_ids t (request_uid q) d2)"
    using assms(5) by (cases t) auto
  ultimately show ?thesis using assms(3) by (simp add: response_def)
qed

theorem update_not_owned_witness:
  "request_table (UpdateCustomers (Some 1) 6 10 (rename_to ''Janet'')) = Some (Customers, UPDATE)
   \<and> request_id (UpdateCustomers (Some 1) 6 10 (rename_to ''Janet'')) = Some 10
   \<and> 10 \<notin> set (own_ids Customers (Some 1) (crm 1 DEFAULT))
   \<and> 10 \<in> set (all_ids Customers (crm 1 DEFAULT))
   \<and> 10 \<notin> set (all_ids Customers two_users)
   \<and> exec (UpdateCustomers (Some 1) 6 10 (rename_to ''Janet'')) (crm 1 DEFAULT)
       = Inr (crm 1 DEFAULT)
   \<and> exec (UpdateCustomers (Some 1) 6 10 (rename_to ''Janet'')) two_users = Inr two_users
   \<and> response (exec (UpdateCustomers (Some 1) 6 10 (rename_to ''Janet'')) (crm 1 DEFAULT))
       = response (exec (UpdateCustomers (Some 1) 6 10 (rename_to ''Janet'')) two_users)"
proof -
  have h: "10 \<notin> set (own_ids Customers (Some 1) (crm 1 DEFAULT))"
    "10 \<in> set (all_ids Customers (crm 1 DEFAULT))"
    "10 \<notin> set (all_ids Customers two_users)"
    by (simp_all add: crm_eq two_users_eq)
  show ?thesis
    using h update_not_owned [of "UpdateCustomers (Some 1) 6 10 (rename_to ''Janet'')"
        Customers 10 "crm 1 DEFAULT" two_users]
    by (simp add: response_def)
qed

text \<open>
  C10. Deleting an identity removes, with it, every row of the four tables whose owner
  reference is that identity: afterwards no profile, customer, interaction or reminder
  has it as \<open>user_id\<close>.
\<close>

theorem delete_identity_cascade:
  assumes "x \<in> set (map au_id (users d))"
  shows "\<exists>d'. delete_auth_users x d = Inr d' \<and> x \<notin> set (map au_id (users d'))
     \<and> rows_of x d' = ([], [], [], [])"
  using assms by (auto simp: delete_auth_users_def rows_of_def Let_def filter_empty_conv)

theorem delete_identity_cascade_witness:
  "2 \<in> set (map au_id (users (crm 1 DEFAULT))) \<and>
   (\<exists>d'. delete_auth_users 2 (crm 1 DEFAULT) = Inr d' \<and> 2 \<notin> set (map au_id (users d'))
     \<and> rows_of 2 d' = ([], [], [], []))"
proof -
  have h: "2 \<in> set (map au_id (users (crm 1 DEFAULT)))"
    by (simp add: crm_eq bruno_def)
  show ?thesis using h delete_identity_cascade [OF h] by simp
qed

text \<open>
  C3. Registering a new identity (one that is not yet in \<^verbatim>\<open>auth.users\<close>, in a reachable
  database, the generated profile id being fresh) succeeds and leaves exactly one profile
  row keyed to it, with plan \<open>free\<close> and the full name given at signup, or the empty string
  when none was given.
\<close>

theorem signup_creates_profile:
  assumes "reachable d" and "au_id new \<notin> set (map au_id (users d))"
    and "gen \<notin> set (map p_id (profiles d))"
  shows "\<exists>d'. insert_auth_users now gen new d = Inr d' \<and>
     filter (\<lambda>r. p_user_id r = au_id new) (profiles d') =
       [\<lparr>p_id = gen, p_user_id = au_id new,
         p_full_name = Some (case au_full_name new of None \<Rightarrow> [] | Some n \<Rightarrow> n),
         p_business_name = None, p_plan = Some ''free'', p_created_at = Some now,
         p_updated_at = Some now\<rparr>]"
proof -
  from assms(1) have "foreign_keys d" by (simp add: reachable_keys)
  then have "list_all (\<lambda>r. p_user_id r \<in> set (map au_id (users d))) (profiles d)"
    by (simp add: foreign_keys_def)
  with assms(2) have none: "\<forall>r\<in>set (profiles d). p_user_id r \<noteq> au_id new"
    by (metis list_all_iff)
  then have "au_id new \<notin> set (map p_user_id (profiles d))" by auto
  moreover from none have "filter (\<lambda>r. p_user_id r = au_id new) (profiles d) = []"
    by (simp add: filter_empty_conv)
  ultimately show ?thesis using assms(2,3)
    by (simp add: insert_auth_users_def handle_new_user_def profiles_insert_row_def fill_def
        plan_check_def coalesce_def)
qed

theorem signup_creates_profile_witness:
  "reachable two_users \<and> au_id \<lparr>au_id = 3, au_full_name = None\<rparr> \<notin> set (map au_id (users two_users))
   \<and> 103 \<notin> set (map p_id (profiles two_users))
   \<and> (\<exists>d'. insert_auth_users 7 103 \<lparr>au_id = 3, au_full_name = None\<rparr> two_users = Inr d' \<and>
     filter (\<lambda>r. p_user_id r = 3) (profiles d') =
       [\<lparr>p_id = 103, p_user_id = 3, p_full_name = Some [],
         p_business_name = None, p_plan = Some ''free'', p_created_at = Some 7,
         p_updated_at = Some 7\<rparr>])"
proof -
  have h: "au_id \<lparr>au_id = 3, au_full_name = None\<rparr> \<notin> set (map au_id (users two_users))"
    "103 \<notin> set (map p_id (profiles two_users))"
    by (simp_all add: two_users_eq ana_def bruno_def)
  show ?thesis
    using h two_users_reachable
      signup_creates_profile [OF two_users_reachable h, of 7]
    by simp
qed

text \<open>Deleting a customer: the owner's request, and a request that sees no row.\<close>

lemma delete_customers_owned:
  assumes "unique_keys d" and "C \<in> set (customers d)" and "uid = Some (c_user_id C)"
  shows "delete_customers uid (c_id C) d = Inr (cascade_spec (c_id C) d)"
proof -
  from assms(1) have dist: "distinct (map c_id (customers d))"
    by (simp add: unique_keys_def)
  have same: "r = C" if "r \<in> set (customers d)" and "c_id r = c_id C" for r
    using dist that assms(2) by (meson distinct_map inj_onD)
  have seen: "(c_id r = c_id C \<and> policy Customers DELETE uid (Some (c_user_id r))) = (c_id r = c_id C)"
    if "r \<in> set (customers d)" for r
    using same [OF that] assms(3) by auto
  have 1: "filter (\<lambda>r. \<not> (c_id r = c_id C \<and> policy Customers DELETE uid (Some (c_user_id r)))) (customers d)
      = filter (\<lambda>r. c_id r \<noteq> c_id C) (customers d)"
    by (rule filter_cong) (use seen in auto)
  have 2: "filter (\<lambda>r. c_id r = c_id C \<and> policy Customers DELETE uid (Some (c_user_id r))) (customers d)
      = filter (\<lambda>r. c_id r = c_id C) (customers d)"
    by (rule filter_cong) (use seen in auto)
  have 3: "set (map c_id (filter (\<lambda>r. c_id r = c_id C) (customers d))) = {c_id C}"
    using assms(2) by auto
  show ?thesis
    unfolding delete_customers_def Let_def cascade_spec_def 1 2 3 by simp
qed

lemma delete_customers_not_owned:
  assumes "x \<notin> set (own_ids Customers uid d)"
  shows "delete_customers uid x d = Inr d"
proof -
  from assms
  have none: "\<forall>r\<in>set (customers d). \<not> (c_id r = x \<and> policy Customers DELETE uid (Some (c_user_id r)))"
    by auto
  then have 1: "filter (\<lambda>r. \<not> (c_id r = x \<and> policy Customers DELETE uid (Some (c_user_id r)))) (customers d)
      = customers d"
    by (simp add: filter_id_conv)
  from none have 2: "filter (\<lambda>r. c_id r = x \<and> policy Customers DELETE uid (Some (c_user_id r))) (customers d) = []"
    by (simp add: filter_empty_conv)
  show ?thesis
    unfolding delete_customers_def Let_def 1 2 by simp
qed

text \<open>
  C2. In every reachable database each interaction and each reminder has its parent
  customer (none is orphaned); the owner's deletion of a customer \<open>C\<close> is one step to the
  database without \<open>C\<close> and without exactly the interactions and reminders whose parent is
  \<open>C\<close>, every other row kept, which is what \<^verbatim>\<open>handleDelete\<close> does once confirmed; and
  a deletion that sees no row of the caller changes nothing.
\<close>

theorem customer_delete_cascade:
  assumes "reachable d"
  shows "list_all (\<lambda>r. i_customer_id r \<in> set (map c_id (customers d))) (customer_interactions d)
     \<and> list_all (\<lambda>r. r_customer_id r \<in> set (map c_id (customers d))) (reminders d)
     \<and> (\<forall>C uid. C \<in> set (customers d) \<and> uid = Some (c_user_id C) \<longrightarrow>
           delete_customers uid (c_id C) d = Inr (cascade_spec (c_id C) d)
           \<and> reachable (cascade_spec (c_id C) d)
           \<and> (\<forall>pg. handleDelete uid True C pg d =
                 (Some ClienteRemovido, loadCustomers uid (cascade_spec (c_id C) d) pg,
                  cascade_spec (c_id C) d)))
     \<and> (\<forall>uid x. x \<notin> set (own_ids Customers uid d) \<longrightarrow> delete_customers uid x d = Inr d)"
proof -
  from assms have fk: "foreign_keys d" and uk: "unique_keys d"
    by (simp_all add: reachable_keys)
  have del: "delete_customers uid (c_id C) d = Inr (cascade_spec (c_id C) d)"
    if "C \<in> set (customers d)" and "uid = Some (c_user_id C)" for C uid
    using uk that by (rule delete_customers_owned)
  have "reachable (cascade_spec (c_id C) d)"
    if "C \<in> set (customers d)" and "uid = Some (c_user_id C)" for C uid
    using assms del [OF that] reachable_exec [of d "DeleteCustomers uid (c_id C)"] by simp
  with del fk show ?thesis
    by (auto simp: foreign_keys_def handleDelete_def delete_customers_not_owned)
qed

theorem customer_delete_cascade_witness:
  "reachable (crm 1 DEFAULT)
   \<and> list_all (\<lambda>r. i_customer_id r \<in> set (map c_id (customers (crm 1 DEFAULT))))
        (customer_interactions (crm 1 DEFAULT))
   \<and> hd (customers (crm 1 DEFAULT)) \<in> set (customers (crm 1 DEFAULT))
   \<and> Some 2 = Some (c_user_id (hd (customers (crm 1 DEFAULT))))
   \<and> delete_customers (Some 2) 10 (crm 1 DEFAULT) = Inr two_users
   \<and> 10 \<notin> set (own_ids Customers (Some 1) (crm 1 DEFAULT))
   \<and> delete_customers (Some 1) 10 (crm 1 DEFAULT) = Inr (crm 1 DEFAULT)"
proof -
  have h: "hd (customers (crm 1 DEFAULT)) \<in> set (customers (crm 1 DEFAULT))"
    "Some 2 = Some (c_user_id (hd (customers (crm 1 DEFAULT))))"
    "10 \<notin> set (own_ids Customers (Some 1) (crm 1 DEFAULT))"
    "c_id (hd (customers (crm 1 DEFAULT))) = 10"
    by (simp_all add: crm_eq)
  have c: "cascade_spec 10 (crm 1 DEFAULT) = two_users"
    by (simp add: crm_eq two_users_eq cascade_spec_def)
  show ?thesis
    using h c customer_delete_cascade [OF crm_reachable, of 1 DEFAULT]
    by (metis crm_reachable)
qed






text \<open>The rows of \<open>a\<close> under the requests of a caller that is not \<open>a\<close>.\<close>

lemma rows_of_insert:
  assumes "uid \<noteq> Some a"
    and "request_table q = Some (t, INSERT)" and "request_uid q = uid" and "exec q d = Inr d'"
  shows "rows_of a d' = rows_of a d"
proof (cases q)
  case (InsertProfiles uid' now gen v)
  with assms insert_profiles_Inr [of uid now gen v d d'] show ?thesis
    by (auto simp: rows_of_def)
next
  case (InsertCustomers uid' now gen v)
  with assms insert_customers_Inr [of uid now gen v d d'] show ?thesis
    by (auto simp: rows_of_def)
next
  case (InsertCustomerInteractions uid' now gen v)
  with assms insert_customer_interactions_Inr [of uid now gen v d d'] show ?thesis
    by (auto simp: rows_of_def)
next
  case (InsertReminders uid' now gen v)
  with assms insert_reminders_Inr [of uid now gen v d d'] show ?thesis
    by (auto simp: rows_of_def)
qed (use assms in simp_all)

lemma rows_of_update:
  assumes "uid \<noteq> Some a"
    and "request_table q = Some (t, UPDATE)" and "request_uid q = uid" and "exec q d = Inr d'"
  shows "rows_of a d' = rows_of a d"
proof (cases q)
  case (UpdateProfiles uid' now x v)
  with assms have "update_profiles uid now x v d = Inr d'" by simp
  then obtain rows where d': "d' = d\<lparr>profiles := rows\<rparr>"
    and rows: "update_rows (\<lambda>r. p_id r = x \<and> policy Profiles UPDATE uid (Some (p_user_id r)))
           (profiles_new_row uid now v d) (profiles d) = Inr rows"
    by (rule update_profiles_Inr)
  have "filter (\<lambda>r. p_user_id r = a) rows = filter (\<lambda>r. p_user_id r = a) (profiles d)"
    using rows
  proof (rule update_rows_filter)
    fix r assume "p_id r = x \<and> policy Profiles UPDATE uid (Some (p_user_id r))"
    then show "p_user_id r \<noteq> a" using assms(1) by auto
  next
    fix r r' assume "profiles_new_row uid now v d r = Inr r'"
    then show "p_user_id r' \<noteq> a" using assms(1) profiles_new_row_keeps by blast
  qed
  then show ?thesis by (simp add: rows_of_def d')
next
  case (UpdateCustomers uid' now x v)
  with assms have "update_customers uid now x v d = Inr d'" by simp
  then obtain rows where d': "d' = d\<lparr>customers := rows\<rparr>"
    and rows: "update_rows (\<lambda>r. c_id r = x \<and> policy Customers UPDATE uid (Some (c_user_id r)))
           (customers_new_row uid now v d) (customers d) = Inr rows"
    by (rule update_customers_Inr)
  have "filter (\<lambda>r. c_user_id r = a) rows = filter (\<lambda>r. c_user_id r = a) (customers d)"
    using rows
  proof (rule update_rows_filter)
    fix r assume "c_id r = x \<and> policy Customers UPDATE uid (Some (c_user_id r))"
    then show "c_user_id r \<noteq> a" using assms(1) by auto
  next
    fix r r' assume "customers_new_row uid now v d r = Inr r'"
    then show "c_user_id r' \<noteq> a" using assms(1) customers_new_row_keeps by blast
  qed
  then show ?thesis by (simp add: rows_of_def d')
next
  case (UpdateCustomerInteractions uid' x v)
  with assms have "update_customer_interactions uid x v d = Inr d'" by simp
  then obtain rows where d': "d' = d\<lparr>customer_interactions := rows\<rparr>"
    and rows: "update_rows
           (\<lambda>r. i_id r = x \<and> policy CustomerInteractions UPDATE uid (Some (i_user_id r)))
           (customer_interactions_new_row uid v d) (customer_interactions d) = Inr rows"
    by (rule update_customer_interactions_Inr)
  have "filter (\<lambda>r. i_user_id r = a) rows = filter (\<lambda>r. i_user_id r = a) (customer_interactions d)"
    using rows
  proof (rule update_rows_filter)
    fix r assume "i_id r = x \<and> policy CustomerInteractions UPDATE uid (Some (i_user_id r))"
    then show "i_user_id r \<noteq> a" using assms(1) by auto
  next
    fix r r' assume "customer_interactions_new_row uid v d r = Inr r'"
    then show "i_user_id r' \<noteq> a"
      using assms(1) customer_interactions_new_row_keeps by blast
  qed
  then show ?thesis by (simp add: rows_of_def d')
next
  case (UpdateReminders uid' now x v)
  with assms have "update_reminders uid now x v d = Inr d'" by simp
  then obtain rows where d': "d' = d\<lparr>reminders := rows\<rparr>"
    and rows: "update_rows (\<lambda>r. r_id r = x \<and> policy Reminders UPDATE uid (Some (r_user_id r)))
           (reminders_new_row uid now v d) (reminders d) = Inr rows"
    by (rule update_reminders_Inr)
  have "filter (\<lambda>r. r_user_id r = a) rows = filter (\<lambda>r. r_user_id r = a) (reminders d)"
    using rows
  proof (rule update_rows_filter)
    fix r assume "r_id r = x \<and> policy Reminders UPDATE uid (Some (r_user_id r))"
    then show "r_user_id r \<noteq> a" using assms(1) by auto
  next
    fix r r' assume "reminders_new_row uid now v d r = Inr r'"
    then show "r_user_id r' \<noteq> a" using assms(1) reminders_new_row_keeps by blast
  qed
  then show ?thesis by (simp add: rows_of_def d')
qed (use assms in simp_all)

lemma rows_of_delete:
  assumes "uid \<noteq> Some a"
    and "request_table q = Some (t, DELETE)" and "t \<noteq> Customers"
    and "request_uid q = uid" and "exec q d = Inr d'"
  shows "rows_of a d' = rows_of a d"
proof (cases q)
  case (DeleteProfiles uid' x)
  with assms show ?thesis
    by (auto simp: rows_of_def delete_profiles_def)
next
  case (DeleteCustomerInteractions uid' x)
  with assms show ?thesis
    by (auto simp: rows_of_def delete_customer_interactions_def intro: filter_cong)
next
  case (DeleteReminders uid' x)
  with assms show ?thesis
    by (auto simp: rows_of_def delete_reminders_def intro: filter_cong)
qed (use assms in simp_all)

lemma rows_of_delete_customers:
  assumes "uid \<noteq> Some a" and "delete_customers uid x d = Inr d'"
  shows "rows_of a d' =
     (filter (\<lambda>r. p_user_id r = a) (profiles d), filter (\<lambda>r. c_user_id r = a) (customers d),
      filter (\<lambda>r. i_user_id r = a \<and> \<not> (i_customer_id r = x \<and> x \<in> set (own_ids Customers uid d)))
        (customer_interactions d),
      filter (\<lambda>r. r_user_id r = a \<and> \<not> (r_customer_id r = x \<and> x \<in> set (own_ids Customers uid d)))
        (reminders d))"
proof -
  define S where "S = (\<lambda>r::customer. c_id r = x \<and> policy Customers DELETE uid (Some (c_user_id r)))"
  have u: "users d' = users d" and p: "profiles d' = profiles d"
    and c: "customers d' = filter (\<lambda>r. \<not> S r) (customers d)"
    and i: "customer_interactions d' =
      filter (\<lambda>r. i_customer_id r \<notin> set (map c_id (filter S (customers d))))
        (customer_interactions d)"
    and r: "reminders d' =
      filter (\<lambda>r. r_customer_id r \<notin> set (map c_id (filter S (customers d))))
        (reminders d)"
    using assms(2) by (auto simp: delete_customers_def S_def Let_def)
  have gone: "k \<in> set (map c_id (filter S (customers d)))
      \<longleftrightarrow> k = x \<and> x \<in> set (own_ids Customers uid d)" for k
    by (auto simp: S_def)
  have "filter (\<lambda>r. c_user_id r = a) (filter (\<lambda>r. \<not> S r) (customers d))
      = filter (\<lambda>r. c_user_id r = a) (customers d)"
    using assms(1) by (auto simp: S_def intro: filter_cong)
  then show ?thesis
    unfolding rows_of_def p c i r filter_filter gone by (simp add: conj_ac)
qed

text \<open>
  C1, as the code has it. Let the caller not be \<open>a\<close>. What the caller can select holds no
  row whose owner reference is \<open>a\<close>. An insert, an update, or a delete on profiles,
  interactions or reminders by the caller leaves every row of \<open>a\<close> as it was. The caller's
  delete of a customer \<open>x\<close> leaves the profiles and customers of \<open>a\<close> as they were and
  removes, of the interactions and reminders of \<open>a\<close>, exactly those whose \<open>customer_id\<close>
  is \<open>x\<close> when the caller owns customer \<open>x\<close>: the cascade follows \<open>customer_id\<close> and
  not the owner of the child row.
\<close>

theorem owner_isolation:
  assumes "uid \<noteq> Some a"
  shows "rows_of a (d\<lparr>profiles := select_profiles uid d, customers := select_customers uid d,
             customer_interactions := select_customer_interactions uid d,
             reminders := select_reminders uid d\<rparr>) = ([], [], [], [])
     \<and> (\<forall>q t c d'. request_table q = Some (t, c) \<and> (t, c) \<noteq> (Customers, DELETE)
           \<and> request_uid q = uid \<and> exec q d = Inr d' \<longrightarrow> rows_of a d' = rows_of a d)
     \<and> (\<forall>x d'. exec (DeleteCustomers uid x) d = Inr d' \<longrightarrow>
           rows_of a d' =
             (filter (\<lambda>r. p_user_id r = a) (profiles d),
              filter (\<lambda>r. c_user_id r = a) (customers d),
              filter (\<lambda>r. i_user_id r = a
                  \<and> \<not> (i_customer_id r = x \<and> x \<in> set (own_ids Customers uid d)))
                (customer_interactions d),
              filter (\<lambda>r. r_user_id r = a
                  \<and> \<not> (r_customer_id r = x \<and> x \<in> set (own_ids Customers uid d)))
                (reminders d)))"
proof (intro conjI allI impI)
  show "rows_of a (d\<lparr>profiles := select_profiles uid d, customers := select_customers uid d,
             customer_interactions := select_customer_interactions uid d,
             reminders := select_reminders uid d\<rparr>) = ([], [], [], [])"
    using assms
    by (auto simp: rows_of_def select_profiles_def select_customers_def
        select_customer_interactions_def select_reminders_def filter_empty_conv)
next
  fix q t c d'
  assume a: "request_table q = Some (t, c) \<and> (t, c) \<noteq> (Customers, DELETE)
           \<and> request_uid q = uid \<and> exec q d = Inr d'"
  show "rows_of a d' = rows_of a d"
  proof (cases c)
    case SELECT
    with a show ?thesis by (cases q) simp_all
  next
    case INSERT
    with a assms show ?thesis using rows_of_insert by blast
  next
    case UPDATE
    with a assms show ?thesis using rows_of_update by blast
  next
    case DELETE
    with a assms show ?thesis using rows_of_delete by blast
  qed
next
  fix x d'
  assume "exec (DeleteCustomers uid x) d = Inr d'"
  then show "rows_of a d' =
             (filter (\<lambda>r. p_user_id r = a) (profiles d),
              filter (\<lambda>r. c_user_id r = a) (customers d),
              filter (\<lambda>r. i_user_id r = a
                  \<and> \<not> (i_customer_id r = x \<and> x \<in> set (own_ids Customers uid d)))
                (customer_interactions d),
              filter (\<lambda>r. r_user_id r = a
                  \<and> \<not> (r_customer_id r = x \<and> x \<in> set (own_ids Customers uid d)))
                (reminders d))"
    using assms rows_of_delete_customers by simp
qed

theorem owner_isolation_witness:
  "Some 2 \<noteq> Some (1::nat)
   \<and> request_table (DeleteReminders (Some 2) 30) = Some (Reminders, DELETE)
   \<and> (Reminders, DELETE) \<noteq> (Customers, DELETE)
   \<and> request_uid (DeleteReminders (Some 2) 30) = Some 2
   \<and> exec (DeleteReminders (Some 2) 30) (crm 2 DEFAULT) = Inr ((crm 2 DEFAULT)\<lparr>reminders := []\<rparr>)
   \<and> rows_of 1 ((crm 2 DEFAULT)\<lparr>reminders := []\<rparr>) = rows_of 1 (crm 2 DEFAULT)
   \<and> exec (DeleteCustomers (Some 2) 10) (crm 2 DEFAULT) = Inr two_users
   \<and> rows_of 1 two_users = rows_of 1 (crm 2 DEFAULT)"
proof -
  have n: "Some (2::nat) \<noteq> Some 1" by simp
  have q: "request_table (DeleteReminders (Some 2) 30) = Some (Reminders, DELETE)"
    "(Reminders, DELETE) \<noteq> (Customers, DELETE)"
    "request_uid (DeleteReminders (Some 2) 30) = Some 2"
    by simp_all
  have e: "exec (DeleteReminders (Some 2) 30) (crm 2 DEFAULT) = Inr ((crm 2 DEFAULT)\<lparr>reminders := []\<rparr>)"
    "exec (DeleteCustomers (Some 2) 10) (crm 2 DEFAULT) = Inr two_users"
    by (simp_all add: crm_eq two_users_eq delete_reminders_def delete_customers_def fill_def)
  have r: "rows_of 1 two_users = rows_of 1 (crm 2 DEFAULT)"
    by (simp add: crm_eq two_users_eq rows_of_def)
  from owner_isolation [OF n, of "crm 2 DEFAULT"] q e(1)
  have "rows_of 1 ((crm 2 DEFAULT)\<lparr>reminders := []\<rparr>) = rows_of 1 (crm 2 DEFAULT)"
    by blast
  with n q e r show ?thesis by simp
qed

text \<open>
  C1 as stated fails: Ana (identity 1) owns an interaction filed under Bruno's customer 10,
  which the \<^verbatim>\<open>INSERT\<close> policy and the foreign key both admit; Bruno (identity 2) deletes his
  customer, and Ana's interaction is gone.
\<close>

theorem owner_isolation_counterexample:
  "reachable (crm 1 DEFAULT)
   \<and> rows_of 1 (crm 1 DEFAULT) =
       ([\<lparr>p_id = 101, p_user_id = 1, p_full_name = Some ''Ana'', p_business_name = None,
           p_plan = Some ''free'', p_created_at = Some 1, p_updated_at = Some 1\<rparr>], [],
        [\<lparr>i_id = 20, i_customer_id = 10, i_user_id = 1, i_type = ''call'',
           i_description = ''First call'', i_interaction_date = Some 4,
           i_created_at = Some 4\<rparr>], [])
   \<and> request_uid (DeleteCustomers (Some 2) 10) = Some 2
   \<and> exec (DeleteCustomers (Some 2) 10) (crm 1 DEFAULT) = Inr two_users
   \<and> rows_of 1 two_users =
       ([\<lparr>p_id = 101, p_user_id = 1, p_full_name = Some ''Ana'', p_business_name = None,
           p_plan = Some ''free'', p_created_at = Some 1, p_updated_at = Some 1\<rparr>], [], [], [])"
  using crm_reachable [of 1 DEFAULT]
  by (simp add: crm_eq two_users_eq rows_of_def delete_customers_def)

text \<open>The rows of an update, one by one.\<close>

lemma update_rows_rel:
  assumes "update_rows m f rs = Inr rs'"
    and "\<And>r r'. m r \<Longrightarrow> f r = Inr r' \<Longrightarrow> R r r'"
    and "\<And>r. \<not> m r \<Longrightarrow> R r r"
  shows "list_all2 R rs rs'"
  using assms(1)
proof (induction rs arbitrary: rs')
  case Nil
  then show ?case by simp
next
  case (Cons r rs)
  then show ?case
    by (auto split: if_splits sum.splits intro: assms(2,3))
qed

lemma stamp_cases:
  "(if c then s = Some (now::int) \<and> (\<forall>t. old = Some t \<and> t \<le> now \<longrightarrow> (\<exists>t'. s = Some t' \<and> t \<le> t'))
    else e) = (if c then s = Some now else e)"
  by auto

text \<open>
  C6, as the code has it. A successful update of profiles, customers or reminders
  relates the rows before and after one by one: a row the statement saw (its id is the one
  named and the caller owns it) has \<open>updated_at\<close> equal to the current time, whatever
  the statement assigned to the column, and every other row is as it was. When the row's
  earlier \<open>updated_at\<close> is not later than the current time, the new one is greater or
  equal.
\<close>

theorem updated_at_trigger:
  "(update_profiles uid now x v1 d = Inr d1 \<longrightarrow>
      list_all2 (\<lambda>old new.
        if p_id old = x \<and> uid = Some (p_user_id old)
        then p_updated_at new = Some now
          \<and> (\<forall>t. p_updated_at old = Some t \<and> t \<le> now \<longrightarrow>
                (\<exists>t'. p_updated_at new = Some t' \<and> t \<le> t'))
        else new = old) (profiles d) (profiles d1))
   \<and> (update_customers uid now x v2 d = Inr d2 \<longrightarrow>
      list_all2 (\<lambda>old new.
        if c_id old = x \<and> uid = Some (c_user_id old)
        then c_updated_at new = Some now
          \<and> (\<forall>t. c_updated_at old = Some t \<and> t \<le> now \<longrightarrow>
                (\<exists>t'. c_updated_at new = Some t' \<and> t \<le> t'))
        else new = old) (customers d) (customers d2))
   \<and> (update_reminders uid now x v3 d = Inr d3 \<longrightarrow>
      list_all2 (\<lambda>old new.
        if r_id old = x \<and> uid = Some (r_user_id old)
        then r_updated_at new = Some now
          \<and> (\<forall>t. r_updated_at old = Some t \<and> t \<le> now \<longrightarrow>
                (\<exists>t'. r_updated_at new = Some t' \<and> t \<le> t'))
        else new = old) (reminders d) (reminders d3))"
  unfolding stamp_cases
proof (intro conjI impI)
  assume "update_profiles uid now x v1 d = Inr d1"
  then obtain rows where d': "d1 = d\<lparr>profiles := rows\<rparr>"
    and rows: "update_rows (\<lambda>r. p_id r = x \<and> policy Profiles UPDATE uid (Some (p_user_id r)))
           (profiles_new_row uid now v1 d) (profiles d) = Inr rows"
    by (rule update_profiles_Inr)
  have "list_all2 (\<lambda>old new. if p_id old = x \<and> uid = Some (p_user_id old)
        then p_updated_at new = Some now else new = old) (profiles d) rows"
    using rows
  proof (rule update_rows_rel)
    fix r r'
    assume "p_id r = x \<and> policy Profiles UPDATE uid (Some (p_user_id r))"
      and "profiles_new_row uid now v1 d r = Inr r'"
    then show "if p_id r = x \<and> uid = Some (p_user_id r)
        then p_updated_at r' = Some now else r' = r"
      using profiles_new_row_keeps [of uid now v1 d r r'] by simp
  next
    fix r
    assume "\<not> (p_id r = x \<and> policy Profiles UPDATE uid (Some (p_user_id r)))"
    then show "if p_id r = x \<and> uid = Some (p_user_id r)
        then p_updated_at r = Some now else r = r"
      by auto
  qed
  then show "list_all2 (\<lambda>old new. if p_id old = x \<and> uid = Some (p_user_id old)
        then p_updated_at new = Some now else new = old) (profiles d) (profiles d1)"
    by (simp add: d')
next
  assume "update_customers uid now x v2 d = Inr d2"
  then obtain rows where d': "d2 = d\<lparr>customers := rows\<rparr>"
    and rows: "update_rows (\<lambda>r. c_id r = x \<and> policy Customers UPDATE uid (Some (c_user_id r)))
           (customers_new_row uid now v2 d) (customers d) = Inr rows"
    by (rule update_customers_Inr)
  have "list_all2 (\<lambda>old new. if c_id old = x \<and> uid = Some (c_user_id old)
        then c_updated_at new = Some now else new = old) (customers d) rows"
    using rows
  proof (rule update_rows_rel)
    fix r r'
    assume "c_id r = x \<and> policy Customers UPDATE uid (Some (c_user_id r))"
      and "customers_new_row uid now v2 d r = Inr r'"
    then show "if c_id r = x \<and> uid = Some (c_user_id r)
        then c_updated_at r' = Some now else r' = r"
      using customers_new_row_keeps [of uid now v2 d r r'] by simp
  next
    fix r
    assume "\<not> (c_id r = x \<and> policy Customers UPDATE uid (Some (c_user_id r)))"
    then show "if c_id r = x \<and> uid = Some (c_user_id r)
        then c_updated_at r = Some now else r = r"
      by auto
  qed
  then show "list_all2 (\<lambda>old new. if c_id old = x \<and> uid = Some (c_user_id old)
        then c_updated_at new = Some now else new = old) (customers d) (customers d2)"
    by (simp add: d')
next
  assume "update_reminders uid now x v3 d = Inr d3"
  then obtain rows where d': "d3 = d\<lparr>reminders := rows\<rparr>"
    and rows: "update_rows (\<lambda>r. r_id r = x \<and> policy Reminders UPDATE uid (Some (r_user_id r)))
           (reminders_new_row uid now v3 d) (reminders d) = Inr rows"
    by (rule update_reminders_Inr)
  have "list_all2 (\<lambda>old new. if r_id old = x \<and> uid = Some (r_user_id old)
        then r_updated_at new = Some now else new = old) (reminders d) rows"
    using rows
  proof (rule update_rows_rel)
    fix r r'
    assume "r_id r = x \<and> policy Reminders UPDATE uid (Some (r_user_id r))"
      and "reminders_new_row uid now v3 d r = Inr r'"
    then show "if r_id r = x \<and> uid = Some (r_user_id r)
        then r_updated_at r' = Some now else r' = r"
      using reminders_new_row_keeps [of uid now v3 d r r'] by simp
  next
    fix r
    assume "\<not> (r_id r = x \<and> policy Reminders UPDATE uid (Some (r_user_id r)))"
    then show "if r_id r = x \<and> uid = Some (r_user_id r)
        then r_updated_at r = Some now else r = r"
      by auto
  qed
  then show "list_all2 (\<lambda>old new. if r_id old = x \<and> uid = Some (r_user_id old)
        then r_updated_at new = Some now else new = old) (reminders d) (reminders d3)"
    by (simp add: d')
qed

lemma late_eq:
  "late = two_users\<lparr>customers :=
      [\<lparr>c_id = 10, c_user_id = 2, c_name = ''Jane'', c_email = None,
          c_phone = None, c_notes = None, c_tags = Some [],
          c_created_at = Some 3, c_updated_at = Some 100\<rparr>]\<rparr>"
  by (simp add: late_def two_users_eq insert_customers_def jane_def fill_def bruno_def ana_def)

lemma late_reachable: "reachable late"
  unfolding late_def by (intro run_reachable two_users_reachable)

theorem updated_at_trigger_witness:
  "update_customers (Some 2) 6 10
       ((rename_to ''Janet'')\<lparr>cu_updated_at := Assign (Some 200)\<rparr>) (crm 2 DEFAULT)
     = Inr ((crm 2 DEFAULT)\<lparr>customers :=
        [\<lparr>c_id = 10, c_user_id = 2, c_name = ''Janet'', c_email = None,
          c_phone = None, c_notes = None, c_tags = Some [],
          c_created_at = Some 3, c_updated_at = Some 6\<rparr>]\<rparr>)
   \<and> list_all2 (\<lambda>old new.
        if c_id old = 10 \<and> Some 2 = Some (c_user_id old)
        then c_updated_at new = Some 6
          \<and> (\<forall>t. c_updated_at old = Some t \<and> t \<le> 6 \<longrightarrow>
                (\<exists>t'. c_updated_at new = Some t' \<and> t \<le> t'))
        else new = old) (customers (crm 2 DEFAULT))
        (customers ((crm 2 DEFAULT)\<lparr>customers :=
        [\<lparr>c_id = 10, c_user_id = 2, c_name = ''Janet'', c_email = None,
          c_phone = None, c_notes = None, c_tags = Some [],
          c_created_at = Some 3, c_updated_at = Some 6\<rparr>]\<rparr>))"
proof -
  have e: "update_customers (Some 2) 6 10
       ((rename_to ''Janet'')\<lparr>cu_updated_at := Assign (Some 200)\<rparr>) (crm 2 DEFAULT)
     = Inr ((crm 2 DEFAULT)\<lparr>customers :=
        [\<lparr>c_id = 10, c_user_id = 2, c_name = ''Janet'', c_email = None,
          c_phone = None, c_notes = None, c_tags = Some [],
          c_created_at = Some 3, c_updated_at = Some 6\<rparr>]\<rparr>)"
    by (simp add: crm_eq update_customers_def customers_new_row_def rename_to_def
      assign_def update_updated_at_column_def)
  from updated_at_trigger [THEN conjunct2, THEN conjunct1, rule_format, OF e]
  have "list_all2 (\<lambda>old new.
        if c_id old = 10 \<and> Some 2 = Some (c_user_id old)
        then c_updated_at new = Some 6
          \<and> (\<forall>t. c_updated_at old = Some t \<and> t \<le> 6 \<longrightarrow>
                (\<exists>t'. c_updated_at new = Some t' \<and> t \<le> t'))
        else new = old) (customers (crm 2 DEFAULT))
        (customers ((crm 2 DEFAULT)\<lparr>customers :=
        [\<lparr>c_id = 10, c_user_id = 2, c_name = ''Janet'', c_email = None,
          c_phone = None, c_notes = None, c_tags = Some [],
          c_created_at = Some 3, c_updated_at = Some 6\<rparr>]\<rparr>))" .
  with e show ?thesis by (rule conjI)
qed

text \<open>
  C6 as stated fails on the second half: an insert may give \<open>updated_at\<close> a value (only
  updates run the trigger), here 100 at time 3; the owner's update at time 6 sets it to 6,
  which is earlier than the value it had.
\<close>

theorem updated_at_counterexample:
  "reachable late
   \<and> map c_updated_at (customers late) = [Some 100]
   \<and> update_customers (Some 2) 6 10 (rename_to ''Janet'') late =
       Inr (two_users\<lparr>customers :=
        [\<lparr>c_id = 10, c_user_id = 2, c_name = ''Janet'', c_email = None,
          c_phone = None, c_notes = None, c_tags = Some [],
          c_created_at = Some 3, c_updated_at = Some 6\<rparr>]\<rparr>)
   \<and> \<not> (100::int) \<le> 6"
  using late_reachable
  by (simp add: late_eq two_users_eq update_customers_def customers_new_row_def rename_to_def
      assign_def update_updated_at_column_def)









text \<open>One click on the toggle button of a reminder that the page shows.\<close>

lemma update_rows_map_eq:
  assumes "\<And>r. r \<in> set rs \<Longrightarrow> m r \<Longrightarrow> f r = Inr (g r)"
  shows "update_rows m f rs = Inr (map (\<lambda>r. if m r then g r else r) rs)"
  using assms by (induction rs) auto

lemma find_the_one:
  assumes "x \<in> set xs" and "P x" and "\<And>y. y \<in> set xs \<Longrightarrow> P y \<Longrightarrow> y = x"
  shows "find P xs = Some x"
  using assms
proof (induction xs)
  case Nil
  then show ?case by simp
next
  case (Cons a xs)
  show ?case
  proof (cases "P a")
    case True
    have "a \<in> set (a # xs)" by simp
    from Cons.prems(3) [OF this True] True show ?thesis by simp
  next
    case False
    with Cons.prems(1,2) have x: "x \<in> set xs" by auto
    have "find P xs = Some x"
    proof (rule Cons.IH [OF x Cons.prems(2)])
      fix y assume "y \<in> set xs" and p: "P y"
      then have "y \<in> set (a # xs)" by simp
      from Cons.prems(3) [OF this p] show "y = x" .
    qed
    with False show ?thesis by simp
  qed
qed

lemma same_id_same_row:
  assumes "distinct (map r_id rs)" and "R \<in> set rs" and "r \<in> set rs" and "r_id r = r_id R"
  shows "r = R"
  using assms by (meson distinct_map inj_onD)

lemma reminders_new_row_toggle:
  assumes "r_user_id R = u"
  shows "reminders_new_row (Some u) now (toggle_upd R') d R =
     Inr (R\<lparr>r_completed := Some (js_not (r_completed R')), r_updated_at := Some now\<rparr>)"
  using assms
  by (simp add: reminders_new_row_def toggle_upd_def assign_def update_updated_at_column_def)

lemma replace_ids:
  "g X = k \<Longrightarrow> map g (map (\<lambda>r. if g r = k then X else r) rs) = map g rs"
  by (induction rs) auto

lemma replace_member:
  "x \<in> set rs \<Longrightarrow> X \<in> set (map (\<lambda>r. if g r = g x then X else r) rs)"
  by (induction rs) auto

lemma replace_twice:
  "g X1 = k \<Longrightarrow>
     map (\<lambda>r. if g r = k then X2 else r) (map (\<lambda>r. if g r = k then X1 else r) rs)
       = map (\<lambda>r. if g r = k then X2 else r) rs"
  by (induction rs) auto

lemma loadData_reminders:
  "rp_reminders (loadData (Some u) e pg) = filter (\<lambda>r. r_user_id r = u) (reminders e)"
  "rp_reminders (loadData None e pg) = []"
  by (auto simp: loadData_def select_reminders_def intro: filter_cong)

lemma loadData_again: "loadData user e (loadData user e' pg) = loadData user e pg"
  by (simp add: loadData_def)

lemma toggle_once:
  assumes dist: "distinct (map r_id (reminders d))" and R: "R \<in> set (reminders d)"
    and own: "r_user_id R = u"
    and pg: "rp_reminders pg = filter (\<lambda>r. r_user_id r = u) (reminders d)"
  shows "toggle_click (Some u) now (r_id R) (pg, d) =
     (loadData (Some u)
        (d\<lparr>reminders := map (\<lambda>r. if r_id r = r_id R
            then R\<lparr>r_completed := Some (js_not (r_completed R)), r_updated_at := Some now\<rparr>
            else r) (reminders d)\<rparr>) pg,
      d\<lparr>reminders := map (\<lambda>r. if r_id r = r_id R
            then R\<lparr>r_completed := Some (js_not (r_completed R)), r_updated_at := Some now\<rparr>
            else r) (reminders d)\<rparr>)"
proof -
  let ?R1 = "R\<lparr>r_completed := Some (js_not (r_completed R)), r_updated_at := Some now\<rparr>"
  let ?m = "\<lambda>r. r_id r = r_id R \<and> policy Reminders UPDATE (Some u) (Some (r_user_id r))"
  have f: "find (\<lambda>r. r_id r = r_id R) (rp_reminders pg) = Some R"
  proof (rule find_the_one)
    show "R \<in> set (rp_reminders pg)" using R own pg by simp
    show "r_id R = r_id R" ..
    fix y assume "y \<in> set (rp_reminders pg)" and "r_id y = r_id R"
    then show "y = R" using same_id_same_row [OF dist R] pg by simp
  qed
  have "update_rows ?m (reminders_new_row (Some u) now (toggle_upd R) d) (reminders d)
      = Inr (map (\<lambda>r. if ?m r then ?R1 else r) (reminders d))"
  proof (rule update_rows_map_eq)
    fix r assume "r \<in> set (reminders d)" and "?m r"
    then have "r = R" using same_id_same_row [OF dist R] by simp
    then show "reminders_new_row (Some u) now (toggle_upd R) d r = Inr ?R1"
      using reminders_new_row_toggle [OF own] by simp
  qed
  moreover have "map (\<lambda>r. if ?m r then ?R1 else r) (reminders d)
      = map (\<lambda>r. if r_id r = r_id R then ?R1 else r) (reminders d)"
  proof (rule map_cong [OF refl])
    fix r assume "r \<in> set (reminders d)"
    then show "(if ?m r then ?R1 else r) = (if r_id r = r_id R then ?R1 else r)"
      using same_id_same_row [OF dist R] own by auto
  qed
  ultimately have u: "update_reminders (Some u) now (r_id R) (toggle_upd R) d
      = Inr (d\<lparr>reminders := map (\<lambda>r. if r_id r = r_id R then ?R1 else r) (reminders d)\<rparr>)"
    unfolding update_reminders_def by simp
  show ?thesis
    by (simp add: toggle_click_def handleToggleComplete_def f u)
qed

text \<open>
  C9, as the code has it. In a reachable database, for a reminder \<open>R\<close> that the page
  shows (so the signed-in user owns it): one click on its toggle button negates the flag and
  reloads the page; when the flag of \<open>R\<close> is not NULL, a second click on the reloaded card
  brings the row back to \<open>R\<close> but for \<open>updated_at\<close>, every other row untouched. So two
  toggles in succession are the identity on the completed flag of a row whose flag is true
  or false.
\<close>

theorem toggle_twice:
  assumes "reachable d" and "R \<in> set (rp_reminders (loadData user d pg))"
    and "r_completed R \<noteq> None"
  shows "toggle_click user now1 (r_id R) (loadData user d pg, d) =
       (loadData user
          (d\<lparr>reminders := map (\<lambda>r. if r_id r = r_id R
              then R\<lparr>r_completed := Some (js_not (r_completed R)), r_updated_at := Some now1\<rparr>
              else r) (reminders d)\<rparr>) pg,
        d\<lparr>reminders := map (\<lambda>r. if r_id r = r_id R
              then R\<lparr>r_completed := Some (js_not (r_completed R)), r_updated_at := Some now1\<rparr>
              else r) (reminders d)\<rparr>)
     \<and> toggle_click user now2 (r_id R)
         (toggle_click user now1 (r_id R) (loadData user d pg, d)) =
       (loadData user
          (d\<lparr>reminders := map (\<lambda>r. if r_id r = r_id R then R\<lparr>r_updated_at := Some now2\<rparr>
              else r) (reminders d)\<rparr>) pg,
        d\<lparr>reminders := map (\<lambda>r. if r_id r = r_id R then R\<lparr>r_updated_at := Some now2\<rparr>
              else r) (reminders d)\<rparr>)"
proof (cases user)
  case None
  with assms(2) show ?thesis by (simp add: loadData_reminders)
next
  case (Some u)
  define R1 where "R1 = R\<lparr>r_completed := Some (js_not (r_completed R)), r_updated_at := Some now1\<rparr>"
  define d1 where "d1 = d\<lparr>reminders := map (\<lambda>r. if r_id r = r_id R then R1 else r) (reminders d)\<rparr>"
  define R2 where "R2 = R1\<lparr>r_completed := Some (js_not (r_completed R1)), r_updated_at := Some now2\<rparr>"
  have id1: "r_id R1 = r_id R" and own1: "r_user_id R1 = r_user_id R"
    by (simp_all add: R1_def)
  from assms(1) have dist: "distinct (map r_id (reminders d))"
    using reachable_keys by (simp add: unique_keys_def)
  from assms(2) Some have R: "R \<in> set (reminders d)" and own: "r_user_id R = u"
    by (simp_all add: loadData_reminders)
  have first: "toggle_click (Some u) now1 (r_id R) (loadData (Some u) d pg, d)
      = (loadData (Some u) d1 pg, d1)"
    using toggle_once [OF dist R own loadData_reminders(1), of now1 pg]
    unfolding d1_def R1_def loadData_again .
  have rem1: "reminders d1 = map (\<lambda>r. if r_id r = r_id R then R1 else r) (reminders d)"
    by (simp add: d1_def)
  have dist1: "distinct (map r_id (reminders d1))"
    unfolding rem1 replace_ids [of r_id, OF id1] by (rule dist)
  have R1: "R1 \<in> set (reminders d1)"
    unfolding rem1 by (rule replace_member [OF R])
  have ownR1: "r_user_id R1 = u" using own own1 by simp
  have second: "toggle_click (Some u) now2 (r_id R) (loadData (Some u) d1 pg, d1)
      = (loadData (Some u)
           (d1\<lparr>reminders := map (\<lambda>r. if r_id r = r_id R then R2 else r) (reminders d1)\<rparr>) pg,
         d1\<lparr>reminders := map (\<lambda>r. if r_id r = r_id R then R2 else r) (reminders d1)\<rparr>)"
    using toggle_once [OF dist1 R1 ownR1 loadData_reminders(1), of now2 pg]
    unfolding loadData_again id1 R2_def .
  from assms(3) have restored: "R2 = R\<lparr>r_updated_at := Some now2\<rparr>"
    by (auto simp: R2_def R1_def js_not_def)
  have maps: "map (\<lambda>r. if r_id r = r_id R then R2 else r) (reminders d1)
      = map (\<lambda>r. if r_id r = r_id R then R2 else r) (reminders d)"
    unfolding rem1 by (rule replace_twice [of r_id, OF id1])
  have upd: "d1\<lparr>reminders := X\<rparr> = d\<lparr>reminders := X\<rparr>" for X
    by (simp add: d1_def)
  have d2: "d1\<lparr>reminders := map (\<lambda>r. if r_id r = r_id R then R2 else r) (reminders d1)\<rparr>
      = d\<lparr>reminders := map (\<lambda>r. if r_id r = r_id R then R\<lparr>r_updated_at := Some now2\<rparr> else r)
           (reminders d)\<rparr>"
    unfolding upd restored maps [unfolded restored] by (rule refl)
  show ?thesis
    unfolding Some first second d2 unfolding d1_def R1_def by simp
qed

lemma crm_reminders: "reminders (crm u c) = [follow_up_row (fill c (Some False))]"
  by (simp add: crm_eq follow_up_row_def)

lemma load_crm:
  "rp_reminders (loadData (Some 2) (crm 2 c) pg) = [follow_up_row (fill c (Some False))]"
  by (simp add: loadData_reminders crm_reminders) (simp add: follow_up_row_def)

theorem toggle_twice_witness:
  "reachable (crm 2 DEFAULT)
   \<and> follow_up_row (Some False) \<in> set (rp_reminders (loadData (Some 2) (crm 2 DEFAULT) blank))
   \<and> r_completed (follow_up_row (Some False)) \<noteq> None
   \<and> snd (toggle_click (Some 2) 6 30 (loadData (Some 2) (crm 2 DEFAULT) blank, crm 2 DEFAULT)) =
       (crm 2 DEFAULT)\<lparr>reminders := [(follow_up_row (Some True))\<lparr>r_updated_at := Some 6\<rparr>]\<rparr>
   \<and> snd (toggle_click (Some 2) 7 30
         (toggle_click (Some 2) 6 30 (loadData (Some 2) (crm 2 DEFAULT) blank, crm 2 DEFAULT))) =
       (crm 2 DEFAULT)\<lparr>reminders := [(follow_up_row (Some False))\<lparr>r_updated_at := Some 7\<rparr>]\<rparr>"
proof -
  have h1: "follow_up_row (Some False) \<in> set (rp_reminders (loadData (Some 2) (crm 2 DEFAULT) blank))"
    by (simp add: load_crm fill_def)
  have h2: "r_completed (follow_up_row (Some False)) \<noteq> None"
    unfolding follow_up_row_def by simp
  note h = h1 h2
  have i: "r_id (follow_up_row (Some False)) = 30"
    by (simp add: follow_up_row_def)
  have m: "map (\<lambda>r. if r_id r = 30 then X else r) (reminders (crm 2 DEFAULT)) = [X]" for X
    by (simp add: crm_reminders follow_up_row_def)
  have f: "(follow_up_row (Some False))\<lparr>r_completed := Some (js_not (r_completed (follow_up_row (Some False)))),
        r_updated_at := Some 6\<rparr> = (follow_up_row (Some True))\<lparr>r_updated_at := Some 6\<rparr>"
    by (simp add: follow_up_row_def js_not_def)
  note t = toggle_twice [OF crm_reachable h, of 6 7, unfolded i m f]
  have c4: "snd (toggle_click (Some 2) 6 30 (loadData (Some 2) (crm 2 DEFAULT) blank, crm 2 DEFAULT)) =
       (crm 2 DEFAULT)\<lparr>reminders := [(follow_up_row (Some True))\<lparr>r_updated_at := Some 6\<rparr>]\<rparr>"
    using t [THEN conjunct1] by simp
  have c5: "snd (toggle_click (Some 2) 7 30
         (toggle_click (Some 2) 6 30 (loadData (Some 2) (crm 2 DEFAULT) blank, crm 2 DEFAULT))) =
       (crm 2 DEFAULT)\<lparr>reminders := [(follow_up_row (Some False))\<lparr>r_updated_at := Some 7\<rparr>]\<rparr>"
    using t [THEN conjunct2] by simp
  from crm_reachable [of 2 DEFAULT] h c4 c5 show ?thesis by (intro conjI)
qed

text \<open>
  C9 as stated fails for a row whose flag is NULL, which \<^verbatim>\<open>completed BOOLEAN DEFAULT false\<close>
  admits: \<^verbatim>\<open>!null\<close> is \<^verbatim>\<open>true\<close>, so two toggles take the flag from NULL to false.
\<close>

theorem toggle_twice_counterexample:
  "reachable (crm 2 (Val None))
   \<and> rp_reminders (loadData (Some 2) (crm 2 (Val None)) blank) = [follow_up_row None]
   \<and> snd (toggle_click (Some 2) 7 30
         (toggle_click (Some 2) 6 30 (loadData (Some 2) (crm 2 (Val None)) blank, crm 2 (Val None)))) =
       (crm 2 (Val None))\<lparr>reminders := [(follow_up_row (Some False))\<lparr>r_updated_at := Some 7\<rparr>]\<rparr>
   \<and> r_completed (follow_up_row None) \<noteq> r_completed ((follow_up_row (Some False))\<lparr>r_updated_at := Some 7\<rparr>)"
proof -
  have d: "distinct (map r_id (reminders e))" if "reminders e = [X]" for e :: db and X
    using that by simp
  have l: "rp_reminders (loadData (Some 2) (crm 2 (Val None)) blank) = [follow_up_row None]"
    by (simp add: load_crm fill_def)
  let ?R1 = "(follow_up_row (Some True))\<lparr>r_updated_at := Some 6\<rparr>"
  let ?d1 = "(crm 2 (Val None))\<lparr>reminders := [?R1]\<rparr>"
  have r0: "reminders (crm 2 (Val None)) = [follow_up_row None]"
    by (simp add: crm_reminders fill_def)
  have 1: "toggle_click (Some 2) 6 30 (loadData (Some 2) (crm 2 (Val None)) blank, crm 2 (Val None))
      = (loadData (Some 2) ?d1 blank, ?d1)"
    using toggle_once [of "crm 2 (Val None)" "follow_up_row None" 2
        "loadData (Some 2) (crm 2 (Val None)) blank" 6]
    by (simp add: r0 loadData_reminders loadData_again) (simp add: follow_up_row_def js_not_def)
  have 2: "toggle_click (Some 2) 7 30 (loadData (Some 2) ?d1 blank, ?d1)
      = (loadData (Some 2) ((crm 2 (Val None))\<lparr>reminders := [(follow_up_row (Some False))\<lparr>r_updated_at := Some 7\<rparr>]\<rparr>) blank,
         (crm 2 (Val None))\<lparr>reminders := [(follow_up_row (Some False))\<lparr>r_updated_at := Some 7\<rparr>]\<rparr>)"
    using toggle_once [of ?d1 ?R1 2 "loadData (Some 2) ?d1 blank" 7]
    by (simp add: loadData_reminders loadData_again) (simp add: follow_up_row_def js_not_def)
  show ?thesis
    using crm_reachable [of 2 "Val None"] l unfolding 1 2
    by (simp add: follow_up_row_def)
qed

end
